theory Spec2Isabelle
  imports Main "HOL-Library.AList"
begin

section \<open>Python objects, errors and callables\<close>

text \<open>
  jeni is dynamically typed: notes, names and resolved values are arbitrary Python
  objects. The universe below has the shapes that \<open>parse_note\<close> tells apart: strings,
  tuples, \<open>None\<close>, and everything else (integers and opaque hashable objects compared by
  identity, which \<open>re.match\<close> rejects with a \<open>TypeError\<close>).
\<close>

datatype pyobj =
    PNone
  | PInt int
  | PStr string
  | PTuple "pyobj list"
  | PObj nat

text \<open>
  Exceptions as values. \<open>UnsetError\<close> carries its \<open>note\<close> attribute (\<open>PNone\<close> until
  one is attached). \<open>RecursionError\<close> is what Python raises when the mutual recursion of
  \<open>resolve\<close> and \<open>fulfill\<close> exceeds the interpreter's stack limit.
\<close>

datatype error =
    UnsetError pyobj
  | LookupError
  | TypeError
  | ValueError
  | RuntimeError
  | AttributeError
  | RecursionError
  | OtherError nat

type_synonym kwargs = "(string \<times> pyobj) list"

text \<open>
  What \<open>jeni\<close> reads off a callable: \<open>sig_args\<close> and \<open>sig_keywords\<close> are the two
  results of \<open>get_named_positional_keyword_arguments(fn)\<close> (computed by \<open>inspect\<close>;
  the keywords in the iteration order of the dict it builds), and \<open>sig_annotations\<close>
  is \<open>fn.__annotations__\<close>, a dict in insertion order.
\<close>

datatype signature = Signature
  (sig_args: "string list")
  (sig_keywords: "string list")
  (sig_annotations: "(string \<times> pyobj) list")

text \<open>A callable: its signature and what calling it returns or raises.\<close>

datatype pyfun = PyFun
  (fn_sig: signature)
  (fn_call: "pyobj list \<Rightarrow> kwargs \<Rightarrow> error + pyobj")

text \<open>
  A generator function. \<open>g_start\<close> is the call of the function followed by the first
  \<open>next\<close>: it yields a value and a suspended frame (encoded as a \<open>pyobj\<close>), returns
  without yielding, or raises. \<open>g_resume\<close> is \<open>send\<close> at a suspended frame, and
  \<open>g_exit\<close> is \<open>GeneratorExit\<close> thrown at a suspended frame. \<open>g_support_name\<close> is
  the attribute \<open>fn.support_name\<close> (\<open>None\<close> when it was never set).
\<close>

datatype gresult = GYield pyobj pyobj | GReturn | GRaise error

datatype genfn = GenFn
  (g_support_name: "bool option")
  (g_sig: signature)
  (g_start: "pyobj list \<Rightarrow> kwargs \<Rightarrow> gresult")
  (g_resume: "pyobj \<Rightarrow> pyobj \<Rightarrow> gresult")
  (g_exit: "pyobj \<Rightarrow> gresult")

text \<open>
  Any other object: its \<open>get\<close> attribute (if it has one), what calling the object itself
  does (if it is callable), and what its \<open>close\<close> method does.
\<close>

datatype close_behaviour = NoCloseAttr | CloseReturns | CloseRaises error

datatype pobject = PObject
  (ob_get: "pyfun option")
  (ob_call: "pyfun option")
  (ob_close: close_behaviour)

text \<open>
  What can be registered for a note: a class (\<open>inspect.isclass\<close>), whose call with no
  arguments constructs an object or raises; a generator function
  (\<open>inspect.isgeneratorfunction\<close>); or any other object.
\<close>

datatype descriptor =
    DClass "error + pobject"
  | DGenFn genfn
  | DObj pobject

section \<open>Note parsing\<close>

text \<open>
  \<open>re_note = re.compile(r'^(.*?)(?::(.*))?$')\<close>, matched with \<open>re.match\<close> and no flags:
  \<open>.\<close> matches any character but a newline, and \<open>$\<close> matches at the end of the string
  or just before a newline that ends the string. The matcher below backtracks the way
  the pattern does: the first group is lazy, the optional group and its \<open>(.*)\<close> are
  greedy.
\<close>

abbreviation newline :: char where
  "newline \<equiv> CHR 0x0A"

definition at_end :: "string \<Rightarrow> bool" where
  "at_end r \<longleftrightarrow> r = [] \<or> r = [newline]"

fun greedy_rest :: "string \<Rightarrow> string \<Rightarrow> string option" where
  "greedy_rest acc [] = (if at_end [] then Some acc else None)"
| "greedy_rest acc (c # r) =
     (case (if c \<noteq> newline then greedy_rest (acc @ [c]) r else None) of
        Some g \<Rightarrow> Some g
      | None \<Rightarrow> if at_end (c # r) then Some acc else None)"

fun re_note_match :: "string \<Rightarrow> string \<Rightarrow> (string \<times> string option) option" where
  "re_note_match acc [] = (if at_end [] then Some (acc, None) else None)"
| "re_note_match acc (c # r) =
     (case (if c = CHR '':'' then greedy_rest [] r else None) of
        Some g \<Rightarrow> Some (acc, Some g)
      | None \<Rightarrow>
          if at_end (c # r) then Some (acc, None)
          else if c \<noteq> newline then re_note_match (acc @ [c]) r
          else None)"

text \<open>
  \<open>Injector.parse_note\<close>. A tuple of length two is returned as it is; a string goes
  through the pattern, and \<open>match.groups()\<close> on a failed match (\<open>None\<close>) raises
  \<open>AttributeError\<close>; \<open>re.match\<close> on anything else raises the \<open>TypeError\<close> that the
  method catches.
\<close>

fun parse_note :: "pyobj \<Rightarrow> error + (pyobj \<times> pyobj)" where
  "parse_note (PTuple xs) =
     (case xs of
        [b, n] \<Rightarrow> Inr (b, n)
      | _ \<Rightarrow> Inl ValueError)"
| "parse_note (PStr s) =
     (case re_note_match [] s of
        None \<Rightarrow> Inl AttributeError
      | Some (b, None) \<Rightarrow> Inr (PStr b, PNone)
      | Some (b, Some n) \<Rightarrow> Inr (PStr b, PStr n))"
| "parse_note note = Inr (note, PNone)"

text \<open>The split of a string at its first colon, as the specification words it.\<close>

fun split_first_colon :: "string \<Rightarrow> string \<times> string option" where
  "split_first_colon [] = ([], None)"
| "split_first_colon (c # r) =
     (if c = CHR '':'' then ([], Some r)
      else (case split_first_colon r of (b, n) \<Rightarrow> (c # b, n)))"

section \<open>The provider registry\<close>

text \<open>
  Registries hang on classes: \<open>reg c\<close> is \<open>vars(c)['provider_registry']\<close>, and \<open>None\<close>
  when the class has no such attribute of its own. \<open>cls.mro()\<close> is a parameter.
\<close>

type_synonym cls = string
type_synonym provider_registry = "cls \<Rightarrow> (pyobj \<rightharpoonup> descriptor) option"

definition register ::
  "provider_registry \<Rightarrow> cls \<Rightarrow> pyobj \<Rightarrow> descriptor \<Rightarrow> error + provider_registry" where
  "register reg c note provider =
     (case parse_note note of
        Inl e \<Rightarrow> Inl e
      | Inr (basenote, name) \<Rightarrow>
          (case reg c of
             None \<Rightarrow> Inr (reg(c \<mapsto> Map.empty(basenote \<mapsto> provider)))
           | Some r \<Rightarrow> Inr (reg(c \<mapsto> r(basenote \<mapsto> provider)))))"

fun lookup :: "provider_registry \<Rightarrow> cls list \<Rightarrow> pyobj \<Rightarrow> error + descriptor" where
  "lookup reg [] basenote = Inl LookupError"
| "lookup reg (c # cs) basenote =
     (case reg c of
        None \<Rightarrow> lookup reg cs basenote
      | Some r \<Rightarrow>
          (case r basenote of
             Some d \<Rightarrow> Inr d
           | None \<Rightarrow> lookup reg cs basenote))"

section \<open>Annotations\<close>

definition has_annotations :: "signature \<Rightarrow> bool" where
  "has_annotations sg \<longleftrightarrow> sig_annotations sg \<noteq> []"

text \<open>
  \<open>collect_notes\<close>: the positional loop stops at the first argument without an
  annotation (\<open>break\<close>), the keyword loop skips such an argument (\<open>continue\<close>). It is
  only called on a callable that has annotations; on any other, \<open>get_annotations\<close>
  raises \<open>AttributeError\<close>.
\<close>

fun collect_positional :: "(string \<times> pyobj) list \<Rightarrow> string list \<Rightarrow> pyobj list" where
  "collect_positional ann [] = []"
| "collect_positional ann (arg # args) =
     (case map_of ann arg of
        Some note \<Rightarrow> note # collect_positional ann args
      | None \<Rightarrow> [])"

fun collect_keywords :: "(string \<times> pyobj) list \<Rightarrow> string list \<Rightarrow> kwargs \<Rightarrow> kwargs" where
  "collect_keywords ann [] acc = acc"
| "collect_keywords ann (arg # keywords) acc =
     (case map_of ann arg of
        Some note \<Rightarrow> collect_keywords ann keywords (AList.update arg note acc)
      | None \<Rightarrow> collect_keywords ann keywords acc)"

definition collect_notes :: "signature \<Rightarrow> error + (pyobj list \<times> kwargs)" where
  "collect_notes sg =
     (if \<not> has_annotations sg then Inl AttributeError
      else Inr (collect_positional (sig_annotations sg) (sig_args sg),
                collect_keywords (sig_annotations sg) (sig_keywords sg) []))"

section \<open>The injector\<close>

text \<open>
  A Python generator object is suspended at a frame or finished. \<open>send\<close> on a
  finished generator raises \<open>StopIteration\<close> (\<open>GReturn\<close>); \<open>close\<close> on a finished
  generator does nothing, and a generator that yields when asked to exit makes
  \<open>close\<close> raise \<open>RuntimeError\<close>.
\<close>

datatype genstate = Suspended pyobj | Finished

definition gen_send :: "genfn \<Rightarrow> genstate \<Rightarrow> pyobj \<Rightarrow> gresult \<times> genstate" where
  "gen_send g gs v =
     (case gs of
        Finished \<Rightarrow> (GReturn, Finished)
      | Suspended s \<Rightarrow>
          (case g_resume g s v of
             GYield v' s' \<Rightarrow> (GYield v' s', Suspended s')
           | GReturn \<Rightarrow> (GReturn, Finished)
           | GRaise e \<Rightarrow> (GRaise e, Finished)))"

definition gen_close :: "genfn \<Rightarrow> genstate \<Rightarrow> error option \<times> genstate" where
  "gen_close g gs =
     (case gs of
        Finished \<Rightarrow> (None, Finished)
      | Suspended s \<Rightarrow>
          (case g_exit g s of
             GYield v' s' \<Rightarrow> (Some RuntimeError, Suspended s')
           | GReturn \<Rightarrow> (None, Finished)
           | GRaise e \<Rightarrow> (Some e, Finished)))"

text \<open>
  A materialized provider, as stored in \<open>self.instances\<close>: an instance of a
  registered class, or a \<open>GeneratorProvider\<close> with its four attributes.
\<close>

datatype provider =
    Inst pobject
  | GenInst (gp_function: genfn) (gp_support_name: bool) (gp_generator: genstate)
      (gp_init_value: pyobj)

text \<open>\<open>GeneratorProvider.init\<close>, on a provider made from \<open>g\<close> with \<open>support_name = sn\<close>.\<close>

definition gp_init :: "genfn \<Rightarrow> bool \<Rightarrow> pyobj list \<Rightarrow> kwargs \<Rightarrow> error + (provider \<times> pyobj)" where
  "gp_init g sn a kw =
     (case g_start g a kw of
        GYield v s \<Rightarrow> Inr (GenInst g sn (Suspended s) v, v)
      | GReturn \<Rightarrow> Inl RuntimeError
      | GRaise e \<Rightarrow> Inl e)"

text \<open>\<open>GeneratorProvider.get\<close>: the result and the provider after the call.\<close>

definition gp_get :: "genfn \<Rightarrow> bool \<Rightarrow> genstate \<Rightarrow> pyobj \<Rightarrow> pyobj \<Rightarrow> (error + pyobj) \<times> provider" where
  "gp_get g sn gs iv name =
     (if name = PNone then (Inr iv, GenInst g sn gs iv)
      else if \<not> sn then (Inl TypeError, GenInst g sn gs iv)
      else (case gen_send g gs name of
              (GYield v s, gs') \<Rightarrow> (Inr v, GenInst g sn gs' iv)
            | (GReturn, gs') \<Rightarrow> (Inl RuntimeError, GenInst g sn gs' iv)
            | (GRaise e, gs') \<Rightarrow> (Inl e, GenInst g sn gs' iv)))"

text \<open>\<open>GeneratorProvider.close\<close>.\<close>

definition gp_close :: "genfn \<Rightarrow> bool \<Rightarrow> genstate \<Rightarrow> pyobj \<Rightarrow> error option \<times> provider" where
  "gp_close g sn gs iv =
     (case (if sn then gen_close g gs else (None, gs)) of
        (Some e, gs') \<Rightarrow> (Some e, GenInst g sn gs' iv)
      | (None, gs') \<Rightarrow>
          (case gen_send g gs' PNone of
             (GReturn, gs'') \<Rightarrow> (None, GenInst g sn gs'' iv)
           | (GYield v s, gs'') \<Rightarrow> (Some RuntimeError, GenInst g sn gs'' iv)
           | (GRaise e, gs'') \<Rightarrow> (Some e, GenInst g sn gs'' iv)))"

text \<open>
  The state of one \<open>Injector\<close>. \<open>instances\<close> is a dict in insertion order (Python 3.7
  and later), since \<open>close\<close> iterates over it. \<open>close_calls\<close> is a history variable and
  not a field of the class: the keys of the providers whose \<open>close\<close> the injector has
  called, in call order.
\<close>

record injector =
  closed :: bool
  instances :: "(pyobj \<times> provider) list"
  vals :: "pyobj \<rightharpoonup> pyobj"
  close_calls :: "pyobj list"

definition new_injector :: injector where
  "new_injector = \<lparr>closed = False, instances = [], vals = Map.empty, close_calls = []\<rparr>"

text \<open>The class of the injector: its \<open>mro()\<close> and the registries of all classes.\<close>

record injector_class =
  mro :: "cls list"
  registry :: provider_registry

type_synonym 'a result = "(error + 'a) \<times> injector"
type_synonym resolver = "injector \<Rightarrow> pyobj \<Rightarrow> pyobj result"

text \<open>
  \<open>resolve\<close>, \<open>fulfill\<close>, \<open>prepare\<close>, \<open>partial\<close>, \<open>init_generator\<close> and
  \<open>handle_provider\<close> call each other. Each is written over the \<open>resolve\<close> it calls
  (\<open>res\<close>), and \<open>resolve\<close> closes the knot below, by recursion on the depth of nested
  calls that the interpreter allows.
\<close>

fun resolve_all :: "resolver \<Rightarrow> injector \<Rightarrow> pyobj list \<Rightarrow> (pyobj list) result" where
  "resolve_all res st [] = (Inr [], st)"
| "resolve_all res st (note # notes) =
     (case res st note of
        (Inl e, st') \<Rightarrow> (Inl e, st')
      | (Inr v, st') \<Rightarrow>
          (case resolve_all res st' notes of
             (Inl e, st'') \<Rightarrow> (Inl e, st'')
           | (Inr vs, st'') \<Rightarrow> (Inr (v # vs), st'')))"

fun fulfill_keywords :: "resolver \<Rightarrow> injector \<Rightarrow> kwargs \<Rightarrow> kwargs \<Rightarrow> kwargs result" where
  "fulfill_keywords res st [] kwargs = (Inr kwargs, st)"
| "fulfill_keywords res st ((arg, note) # keyword_notes) kwargs =
     (case res st note of
        (Inr v, st') \<Rightarrow> fulfill_keywords res st' keyword_notes (AList.update arg v kwargs)
      | (Inl (UnsetError n), st') \<Rightarrow> fulfill_keywords res st' keyword_notes kwargs
      | (Inl e, st') \<Rightarrow> (Inl e, st'))"

definition fulfill_with ::
  "resolver \<Rightarrow> injector \<Rightarrow> pyobj list \<Rightarrow> kwargs \<Rightarrow> (pyobj list \<times> kwargs) result" where
  "fulfill_with res st notes keyword_notes =
     (case resolve_all res st notes of
        (Inl e, st') \<Rightarrow> (Inl e, st')
      | (Inr args, st') \<Rightarrow>
          (case fulfill_keywords res st' keyword_notes [] of
             (Inl e, st'') \<Rightarrow> (Inl e, st'')
           | (Inr kwargs, st'') \<Rightarrow> (Inr (args, kwargs), st'')))"

definition prepare_with :: "resolver \<Rightarrow> injector \<Rightarrow> signature \<Rightarrow> (pyobj list \<times> kwargs) result" where
  "prepare_with res st sg =
     (case collect_notes sg of
        Inl e \<Rightarrow> (Inl e, st)
      | Inr (notes, keyword_notes) \<Rightarrow> fulfill_with res st notes keyword_notes)"

text \<open>
  \<open>functools.partial(fn, *args, **kwargs)\<close>: the bound positional arguments come first,
  and the keywords of the call update the bound ones.
\<close>

definition dict_update :: "kwargs \<Rightarrow> kwargs \<Rightarrow> kwargs" where
  "dict_update d e = foldl (\<lambda>acc (k, v). AList.update k v acc) d e"

definition functools_partial ::
  "pyfun \<Rightarrow> pyobj list \<Rightarrow> kwargs \<Rightarrow> pyobj list \<Rightarrow> kwargs \<Rightarrow> error + pyobj" where
  "functools_partial fn args kwargs = (\<lambda>a kw. fn_call fn (args @ a) (dict_update kwargs kw))"

definition partial_with ::
  "resolver \<Rightarrow> injector \<Rightarrow> pyfun \<Rightarrow> (pyobj list \<Rightarrow> kwargs \<Rightarrow> error + pyobj) result" where
  "partial_with res st fn =
     (case prepare_with res st (fn_sig fn) of
        (Inl e, st') \<Rightarrow> (Inl e, st')
      | (Inr (args, kwargs), st') \<Rightarrow> (Inr (functools_partial fn args kwargs), st'))"

text \<open>\<open>fn = self.partial(fn)\<close> when \<open>fn\<close> has annotations, and \<open>fn\<close> itself otherwise.\<close>

definition partial_if_annotated ::
  "resolver \<Rightarrow> injector \<Rightarrow> pyfun \<Rightarrow> (pyobj list \<Rightarrow> kwargs \<Rightarrow> error + pyobj) result" where
  "partial_if_annotated res st fn =
     (if has_annotations (fn_sig fn) then partial_with res st fn
      else (Inr (fn_call fn), st))"

definition init_generator_with :: "resolver \<Rightarrow> injector \<Rightarrow> genfn \<Rightarrow> (provider \<times> pyobj) result" where
  "init_generator_with res st fn =
     (case g_support_name fn of
        None \<Rightarrow> (Inl AttributeError, st)
      | Some sn \<Rightarrow>
          if has_annotations (g_sig fn) then
            (case prepare_with res st (g_sig fn) of
               (Inl e, st') \<Rightarrow> (Inl e, st')
             | (Inr (args, kwargs), st') \<Rightarrow> (gp_init fn sn args kwargs, st'))
          else (gp_init fn sn [] [], st))"

text \<open>
  The \<open>except UnsetError\<close> clause of \<open>handle_provider\<close>: the note of the call is written
  into the exception, which is raised again.
\<close>

fun attach_note :: "pyobj \<Rightarrow> error + pyobj \<Rightarrow> error + pyobj" where
  "attach_note note (Inl (UnsetError n)) = Inl (UnsetError note)"
| "attach_note note r = r"

text \<open>
  The second half of \<open>handle_provider\<close> (from \<open>hasattr(provider_or_fn, 'get')\<close> on), with
  the provider in hand. A \<open>GeneratorProvider\<close> has a \<open>get\<close> without annotations, and its
  call changes the provider stored under \<open>basenote\<close> in place. An object without \<open>get\<close>
  is called itself, which raises \<open>TypeError\<close> when it is not callable.
\<close>

definition call_provider ::
  "resolver \<Rightarrow> injector \<Rightarrow> provider \<Rightarrow> pyobj \<Rightarrow> pyobj \<Rightarrow> pyobj \<Rightarrow> pyobj result" where
  "call_provider res st provider note basenote name =
     (case provider of
        GenInst g sn gs iv \<Rightarrow>
          (case gp_get g sn gs iv name of
             (r, provider') \<Rightarrow>
               (let st' = (if name = PNone then st
                           else st\<lparr>instances := AList.update basenote provider' (instances st)\<rparr>)
                in case r of
                     Inl e \<Rightarrow> (attach_note note (Inl e), st')
                   | Inr value \<Rightarrow>
                       if name = PNone
                       then (Inr value, st'\<lparr>vals := (vals st')(basenote \<mapsto> value)\<rparr>)
                       else (Inr value, st')))
      | Inst ob \<Rightarrow>
          (case (case ob_get ob of Some get \<Rightarrow> Some get | None \<Rightarrow> ob_call ob) of
             None \<Rightarrow> (Inl TypeError, st)
           | Some fn \<Rightarrow>
               (case partial_if_annotated res st fn of
                  (Inl e, st') \<Rightarrow> (Inl e, st')
                | (Inr call, st') \<Rightarrow>
                    if name = PNone then
                      (case call [] [] of
                         Inl e \<Rightarrow> (attach_note note (Inl e), st')
                       | Inr value \<Rightarrow> (Inr value, st'\<lparr>vals := (vals st')(basenote \<mapsto> value)\<rparr>))
                    else (attach_note note (call [] [(''name'', name)]), st'))))"

definition handle_provider_with ::
  "resolver \<Rightarrow> injector \<Rightarrow> descriptor \<Rightarrow> pyobj \<Rightarrow> pyobj \<Rightarrow> pyobj \<Rightarrow> pyobj result" where
  "handle_provider_with res st provider_or_fn note basenote name =
     (case map_of (instances st) basenote of
        Some provider \<Rightarrow> call_provider res st provider note basenote name
      | None \<Rightarrow>
          (case provider_or_fn of
             DClass construct \<Rightarrow>
               (case construct of
                  Inl e \<Rightarrow> (Inl e, st)
                | Inr ob \<Rightarrow>
                    call_provider res
                      (st\<lparr>instances := AList.update basenote (Inst ob) (instances st)\<rparr>)
                      (Inst ob) note basenote name)
           | DGenFn fn \<Rightarrow>
               (case init_generator_with res st fn of
                  (Inl e, st') \<Rightarrow> (Inl e, st')
                | (Inr (provider, value), st') \<Rightarrow>
                    (let st'' = st'\<lparr>instances := AList.update basenote provider (instances st'),
                                    vals := (vals st')(basenote \<mapsto> value)\<rparr>
                     in if name = PNone then (Inr value, st'')
                        else call_provider res st'' provider note basenote name))
           | DObj ob \<Rightarrow> call_provider res st (Inst ob) note basenote name))"

definition resolve_with :: "resolver \<Rightarrow> injector_class \<Rightarrow> injector \<Rightarrow> pyobj \<Rightarrow> pyobj result" where
  "resolve_with res C st note =
     (case parse_note note of
        Inl e \<Rightarrow> (Inl e, st)
      | Inr (basenote, name) \<Rightarrow>
          (case (if name = PNone then vals st basenote else None) of
             Some value \<Rightarrow> (Inr value, st)
           | None \<Rightarrow>
               (case lookup (registry C) (mro C) basenote of
                  Inl e \<Rightarrow> (Inl LookupError, st)
                | Inr provider_or_fn \<Rightarrow>
                    handle_provider_with res st provider_or_fn note basenote name)))"

text \<open>
  \<open>Injector.resolve\<close>, with \<open>n\<close> the number of nested \<open>resolve\<close> calls the interpreter
  still allows; at none, the call raises \<open>RecursionError\<close>, which no handler of the
  module catches.
\<close>

primrec resolve :: "nat \<Rightarrow> injector_class \<Rightarrow> injector \<Rightarrow> pyobj \<Rightarrow> pyobj result" where
  "resolve 0 C st note = (Inl RecursionError, st)"
| "resolve (Suc n) C st note = resolve_with (resolve n C) C st note"

definition fulfill ::
  "nat \<Rightarrow> injector_class \<Rightarrow> injector \<Rightarrow> pyobj list \<Rightarrow> kwargs \<Rightarrow> (pyobj list \<times> kwargs) result" where
  "fulfill n C st notes keyword_notes = fulfill_with (resolve n C) st notes keyword_notes"

text \<open>\<open>Injector.close\<close>: the loop over \<open>self.instances.values()\<close>, then the flag.\<close>

definition provider_close :: "provider \<Rightarrow> error option \<times> provider" where
  "provider_close provider =
     (case provider of
        Inst ob \<Rightarrow>
          (case ob_close ob of
             NoCloseAttr \<Rightarrow> (Some AttributeError, Inst ob)
           | CloseReturns \<Rightarrow> (None, Inst ob)
           | CloseRaises e \<Rightarrow> (Some e, Inst ob))
      | GenInst g sn gs iv \<Rightarrow> gp_close g sn gs iv)"

fun close_loop ::
  "(pyobj \<times> provider) list \<Rightarrow> pyobj list \<Rightarrow>
   error option \<times> (pyobj \<times> provider) list \<times> pyobj list" where
  "close_loop [] calls = (None, [], calls)"
| "close_loop ((k, provider) # rest) calls =
     (case provider_close provider of
        (Some e, provider') \<Rightarrow> (Some e, (k, provider') # rest, calls @ [k])
      | (None, provider') \<Rightarrow>
          (case close_loop rest (calls @ [k]) of
             (r, rest', calls') \<Rightarrow> (r, (k, provider') # rest', calls')))"

definition close :: "injector \<Rightarrow> unit result" where
  "close st =
     (if closed st then (Inl RuntimeError, st)
      else (case close_loop (instances st) (close_calls st) of
              (Some e, ps, calls) \<Rightarrow> (Inl e, st\<lparr>instances := ps, close_calls := calls\<rparr>)
            | (None, ps, calls) \<Rightarrow>
                (Inr (), st\<lparr>instances := ps, close_calls := calls, closed := True\<rparr>)))"

section \<open>The decoration layer\<close>

text \<open>
  \<open>DecoratingInjector\<close>. \<open>dreg c\<close> is \<open>vars(c)['decorator_registry']\<close>, a
  \<open>defaultdict(list)\<close> keyed by \<open>(basenote, name)\<close>. \<open>decorate\<close> is modelled for a call
  that gives \<open>fn\<close> and no keyword but \<open>mode\<close>.
\<close>

abbreviation DECORATE :: string where
  "DECORATE \<equiv> ''decorate''"

abbreviation CONFIGURE :: string where
  "CONFIGURE \<equiv> ''configure''"

type_synonym decorator_registry =
  "cls \<Rightarrow> (pyobj \<times> pyobj \<rightharpoonup> (string \<times> pyfun) list) option"

definition decorate ::
  "decorator_registry \<Rightarrow> cls \<Rightarrow> pyobj \<Rightarrow> pyfun \<Rightarrow> string \<Rightarrow> error + decorator_registry" where
  "decorate dreg c note fn mode =
     (if mode \<noteq> DECORATE \<and> mode \<noteq> CONFIGURE then Inl ValueError
      else (case parse_note note of
              Inl e \<Rightarrow> Inl e
            | Inr (basenote, name) \<Rightarrow>
                if mode = CONFIGURE \<and> name \<noteq> PNone then Inl ValueError
                else (case dreg c of
                        None \<Rightarrow> Inr (dreg(c \<mapsto> Map.empty((basenote, name) \<mapsto> [(mode, fn)])))
                      | Some r \<Rightarrow>
                          Inr (dreg(c \<mapsto> r((basenote, name) \<mapsto>
                                 (case r (basenote, name) of None \<Rightarrow> [] | Some l \<Rightarrow> l)
                                 @ [(mode, fn)]))))))"

definition configure ::
  "decorator_registry \<Rightarrow> cls \<Rightarrow> pyobj \<Rightarrow> pyfun \<Rightarrow> error + decorator_registry" where
  "configure dreg c note fn = decorate dreg c note fn CONFIGURE"

text \<open>
  The entries that \<open>decorators_iter\<close> visits, in its order: the classes of
  \<open>type(self).mro()[::-1]\<close>, and the list stored at each.
\<close>

definition class_decorators ::
  "decorator_registry \<Rightarrow> pyobj \<Rightarrow> pyobj \<Rightarrow> cls \<Rightarrow> (string \<times> pyfun) list" where
  "class_decorators dreg basenote name c =
     (case dreg c of
        None \<Rightarrow> []
      | Some r \<Rightarrow> (case r (basenote, name) of None \<Rightarrow> [] | Some l \<Rightarrow> l))"

definition decorators_iter ::
  "decorator_registry \<Rightarrow> cls list \<Rightarrow> pyobj \<Rightarrow> pyobj \<Rightarrow> (string \<times> pyfun) list" where
  "decorators_iter dreg mro_list basenote name =
     concat (map (class_decorators dreg basenote name) (rev mro_list))"

text \<open>
  The loop of \<open>decorators_apply\<close> over those entries. \<open>decorators_iter\<close> is a generator,
  so what it does for an entry runs when the loop reaches that entry, after the entries
  before it have been applied. For each entry it first evaluates
  \<open>self.has_annotations(fn)\<close>, an attribute lookup on the injector: \<open>attr\<close> is the method
  that the lookup finds, and \<open>None\<close> when no class of the injector defines one, in which
  case the lookup raises \<open>AttributeError\<close>.
\<close>

fun decorators_loop ::
  "resolver \<Rightarrow> (pyfun \<Rightarrow> bool) option \<Rightarrow> injector \<Rightarrow> (string \<times> pyfun) list \<Rightarrow> pyobj \<Rightarrow>
   pyobj result" where
  "decorators_loop res attr st [] value = (Inr value, st)"
| "decorators_loop res attr st ((mode, fn) # rest) value =
     (case attr of
        None \<Rightarrow> (Inl AttributeError, st)
      | Some annotated \<Rightarrow>
          (case (if annotated fn then partial_with res st fn else (Inr (fn_call fn), st)) of
             (Inl e, st') \<Rightarrow> (Inl e, st')
           | (Inr call, st') \<Rightarrow>
               if mode = DECORATE then
                 (case call [value] [] of
                    Inl e \<Rightarrow> (Inl e, st')
                  | Inr value' \<Rightarrow> decorators_loop res attr st' rest value')
               else if mode = CONFIGURE then
                 (case call [value] [] of
                    Inl e \<Rightarrow> (Inl e, st')
                  | Inr ignored \<Rightarrow> decorators_loop res attr st' rest value)
               else decorators_loop res attr st' rest value))"

definition decorators_apply ::
  "nat \<Rightarrow> injector_class \<Rightarrow> (pyfun \<Rightarrow> bool) option \<Rightarrow> decorator_registry \<Rightarrow> injector \<Rightarrow>
   pyobj \<Rightarrow> pyobj \<Rightarrow> pyobj \<Rightarrow> pyobj result" where
  "decorators_apply n C attr dreg st basenote name value =
     decorators_loop (resolve n C) attr st (decorators_iter dreg (mro C) basenote name) value"

text \<open>
  The attribute \<open>has_annotations\<close> of the injectors of the two modules: neither
  \<open>Injector\<close> in \<open>jeni.py\<close> nor \<open>DecoratingInjector\<close> in \<open>jeni_decoration.py\<close> defines
  it (\<open>has_annotations\<close> is a function of the module \<open>jeni\<close>, not a method).
\<close>

definition injector_has_annotations :: "(pyfun \<Rightarrow> bool) option" where
  "injector_has_annotations = None"

section \<open>Example programs\<close>

text \<open>
  A factory: a plain function without parameters that returns \<open>v\<close>. It has no \<open>get\<close>
  and no \<open>close\<close> attribute, and a call with any argument raises \<open>TypeError\<close>.
\<close>

definition ex_function :: "pyobj \<Rightarrow> pobject" where
  "ex_function v =
     PObject None
       (Some (PyFun (Signature [] [] [])
                (\<lambda>a kw. if a = [] \<and> kw = [] then Inr v else Inl TypeError)))
       NoCloseAttr"

text \<open>\<open>Injector.factory('answer', lambda: 42)\<close> on a class that has no registry yet.\<close>

definition ex_registry :: provider_registry where
  "ex_registry = (\<lambda>c. None)(''Injector'' \<mapsto> Map.empty(PStr ''answer'' \<mapsto> DObj (ex_function (PInt 42))))"

text \<open>
  The generator of the module's demonstration, registered with
  \<open>@Injector.provider('answer')\<close>: it yields \<open>42\<close> once and then returns.
\<close>

definition ex_answer :: genfn where
  "ex_answer =
     GenFn (Some False) (Signature [] [] [])
       (\<lambda>a kw. if a = [] \<and> kw = [] then GYield (PInt 42) PNone else GRaise TypeError)
       (\<lambda>s v. GReturn)
       (\<lambda>s. GReturn)"

text \<open>
  A provider class: its \<open>get\<close> returns a connection, its \<open>close\<close> raises.
\<close>

definition ex_db :: pobject where
  "ex_db =
     PObject
       (Some (PyFun (Signature [] [] []) (\<lambda>a kw. if a = [] then Inr (PStr ''connection'') else Inl TypeError)))
       None
       (CloseRaises (OtherError 1))"

text \<open>
  The \<open>error\<close> factory of the demonstration, which raises \<open>UnsetError\<close>, and a
  generator function that raises it before its first \<open>yield\<close>.
\<close>

definition ex_error :: pobject where
  "ex_error =
     PObject None
       (Some (PyFun (Signature [] [] [])
                (\<lambda>a kw. if a = [] \<and> kw = [] then Inl (UnsetError PNone) else Inl TypeError)))
       NoCloseAttr"

definition ex_maybe :: genfn where
  "ex_maybe =
     GenFn (Some False) (Signature [] [] [])
       (\<lambda>a kw. if a = [] \<and> kw = [] then GRaise (UnsetError PNone) else GRaise TypeError)
       (\<lambda>s v. GReturn)
       (\<lambda>s. GReturn)"

text \<open>
  \<open>generator_with_name\<close> of the demonstration, registered with \<open>name=True\<close>: it
  yields a greeting, and then one greeting for each name it is sent.
\<close>

definition ex_hello :: genfn where
  "ex_hello =
     GenFn (Some True) (Signature [] [] [])
       (\<lambda>a kw. if a = [] \<and> kw = [] then GYield (PStr ''Hello, world!'') PNone
                else GRaise TypeError)
       (\<lambda>s name. GYield (PTuple [PStr ''Hello'', name]) PNone)
       (\<lambda>s. GReturn)"

text \<open>
  A provider class whose \<open>get\<close> raises \<open>UnsetError\<close>, and a generator function with
  name support that yields once and raises \<open>UnsetError\<close> when it is sent a name.
\<close>

definition ex_cfg :: pobject where
  "ex_cfg =
     PObject
       (Some (PyFun (Signature [] [] []) (\<lambda>a kw. if a = [] then Inl (UnsetError PNone) else Inl TypeError)))
       None
       CloseReturns"

definition ex_mood :: genfn where
  "ex_mood =
     GenFn (Some True) (Signature [] [] [])
       (\<lambda>a kw. if a = [] \<and> kw = [] then GYield (PStr ''calm'') PNone else GRaise TypeError)
       (\<lambda>s name. GRaise (UnsetError PNone))
       (\<lambda>s. GReturn)"

definition ex_providers :: provider_registry where
  "ex_providers =
     (\<lambda>c. None)(''Injector'' \<mapsto>
        Map.empty(PStr ''answer'' \<mapsto> DGenFn ex_answer,
                  PStr ''db'' \<mapsto> DClass (Inr ex_db),
                  PStr ''error'' \<mapsto> DObj ex_error,
                  PStr ''maybe'' \<mapsto> DGenFn ex_maybe,
                  PStr ''greeting'' \<mapsto> DGenFn ex_hello,
                  PStr ''cfg'' \<mapsto> DClass (Inr ex_cfg),
                  PStr ''mood'' \<mapsto> DGenFn ex_mood))"

definition ex_class :: injector_class where
  "ex_class = \<lparr>mro = [''Injector'', ''object''], registry = ex_providers\<rparr>"

text \<open>
  Two injectors of that class: \<open>ex_one\<close> after \<open>resolve('answer')\<close>, and \<open>ex_two\<close>
  after \<open>resolve('db')\<close> and then \<open>resolve('answer')\<close>.
\<close>

definition ex_two :: injector where
  "ex_two =
     \<lparr>closed = False,
      instances = [(PStr ''db'', Inst ex_db),
                   (PStr ''answer'', GenInst ex_answer False (Suspended PNone) (PInt 42))],
      vals = Map.empty(PStr ''db'' \<mapsto> PStr ''connection'', PStr ''answer'' \<mapsto> PInt 42),
      close_calls = []\<rparr>"

definition ex_one :: injector where
  "ex_one =
     \<lparr>closed = False,
      instances = [(PStr ''answer'', GenInst ex_answer False (Suspended PNone) (PInt 42))],
      vals = Map.empty(PStr ''answer'' \<mapsto> PInt 42),
      close_calls = []\<rparr>"

text \<open>
  Two more injectors of that class: \<open>ex_cfg_made\<close> after a \<open>resolve('cfg')\<close>, which
  instantiates the class before its \<open>get\<close> raises, and \<open>ex_mood_made\<close> after
  \<open>resolve('mood')\<close>.
\<close>

definition ex_cfg_made :: injector where
  "ex_cfg_made =
     \<lparr>closed = False, instances = [(PStr ''cfg'', Inst ex_cfg)], vals = Map.empty,
      close_calls = []\<rparr>"

definition ex_mood_made :: injector where
  "ex_mood_made =
     \<lparr>closed = False,
      instances = [(PStr ''mood'', GenInst ex_mood True (Suspended PNone) (PStr ''calm''))],
      vals = Map.empty(PStr ''mood'' \<mapsto> PStr ''calm''),
      close_calls = []\<rparr>"

text \<open>A class without any registration.\<close>

definition ex_empty_class :: injector_class where
  "ex_empty_class = \<lparr>mro = [''object''], registry = (\<lambda>c. None)\<rparr>"

text \<open>
  The decorations of \<open>test_mixed_mode_decorate\<close> and \<open>test_nested_decorate\<close>:
  \<open>reverse_it\<close> (decorate) and \<open>ignore_it\<close> (configure) on \<open>TestInjector\<close>, then
  \<open>double_it\<close> (decorate) on its subclass, all on the note \<open>'it'\<close>. The three
  registries are the ones after each registration. The provider of \<open>'it'\<close> is a
  factory on \<open>TestInjector\<close> that returns \<open>'abc'\<close>.
\<close>

definition ex_reverse_it :: pyfun where
  "ex_reverse_it =
     PyFun (Signature [''v''] [] [])
       (\<lambda>a kw. case a of [PStr s] \<Rightarrow> Inr (PStr (rev s)) | _ \<Rightarrow> Inl TypeError)"

definition ex_double_it :: pyfun where
  "ex_double_it =
     PyFun (Signature [''v''] [] [])
       (\<lambda>a kw. case a of [PStr s] \<Rightarrow> Inr (PStr (s @ s)) | _ \<Rightarrow> Inl TypeError)"

definition ex_ignore_it :: pyfun where
  "ex_ignore_it =
     PyFun (Signature [''v''] [] [])
       (\<lambda>a kw. case a of [v] \<Rightarrow> Inr PNone | _ \<Rightarrow> Inl TypeError)"

definition ex_decorators :: decorator_registry where
  "ex_decorators =
     (\<lambda>c. None)
       (''TestInjector'' \<mapsto>
          Map.empty((PStr ''it'', PNone) \<mapsto> [(DECORATE, ex_reverse_it), (CONFIGURE, ex_ignore_it)]),
        ''SubTestInjector'' \<mapsto>
          Map.empty((PStr ''it'', PNone) \<mapsto> [(DECORATE, ex_double_it)]))"

definition ex_decorators1 :: decorator_registry where
  "ex_decorators1 =
     (\<lambda>c. None)
       (''TestInjector'' \<mapsto> Map.empty((PStr ''it'', PNone) \<mapsto> [(DECORATE, ex_reverse_it)]))"

definition ex_decorators2 :: decorator_registry where
  "ex_decorators2 =
     (\<lambda>c. None)
       (''TestInjector'' \<mapsto>
          Map.empty((PStr ''it'', PNone) \<mapsto> [(DECORATE, ex_reverse_it), (CONFIGURE, ex_ignore_it)]))"

definition ex_sub_class :: injector_class where
  "ex_sub_class =
     \<lparr>mro = [''SubTestInjector'', ''TestInjector'', ''DecoratingInjector'', ''Injector'', ''object''],
      registry = (\<lambda>c. None)(''TestInjector'' \<mapsto>
                   Map.empty(PStr ''it'' \<mapsto> DObj (ex_function (PStr ''abc''))))\<rparr>"

section \<open>An invariant of the caches\<close>

text \<open>
  The base key \<open>b\<close> has the cached value \<open>v\<close>, and its provider is materialized or
  the descriptor that \<open>lookup\<close> finds for it is not a generator function.
\<close>

definition keeps_cached :: "injector_class \<Rightarrow> pyobj \<Rightarrow> pyobj \<Rightarrow> injector \<Rightarrow> bool" where
  "keeps_cached C b v s \<longleftrightarrow>
     vals s b = Some v
     \<and> (map_of (instances s) b \<noteq> None \<or> (\<forall>g. lookup (registry C) (mro C) b \<noteq> Inr (DGenFn g)))"

text \<open>
  Every base key with a cached value whose registered descriptor is a generator
  function has its provider materialized.
\<close>

definition cache_consistent :: "injector_class \<Rightarrow> injector \<Rightarrow> bool" where
  "cache_consistent C s \<longleftrightarrow>
     (\<forall>b g. vals s b \<noteq> None \<and> lookup (registry C) (mro C) b = Inr (DGenFn g) \<longrightarrow>
        map_of (instances s) b \<noteq> None)"

section \<open>More example programs\<close>

text \<open>
  \<open>ex_greeted\<close> is an injector of \<open>ex_class\<close> after \<open>resolve('greeting')\<close>.
  \<open>ex_cached\<close> is an injector of a class with the registry \<open>ex_registry\<close> after
  \<open>resolve('answer')\<close>; \<open>ex_reregistered\<close> is that class after it has registered the
  generator function \<open>ex_hello\<close> for \<open>'answer'\<close>.
\<close>

definition ex_greeted :: injector where
  "ex_greeted =
     \<lparr>closed = False,
      instances = [(PStr ''greeting'', GenInst ex_hello True (Suspended PNone) (PStr ''Hello, world!''))],
      vals = Map.empty(PStr ''greeting'' \<mapsto> PStr ''Hello, world!''),
      close_calls = []\<rparr>"

definition ex_base_class :: injector_class where
  "ex_base_class = \<lparr>mro = [''Injector'', ''object''], registry = ex_registry\<rparr>"

definition ex_cached :: injector where
  "ex_cached =
     \<lparr>closed = False, instances = [],
      vals = Map.empty(PStr ''answer'' \<mapsto> PInt 42), close_calls = []\<rparr>"

definition ex_reregistered :: injector_class where
  "ex_reregistered =
     \<lparr>mro = [''Injector'', ''object''],
      registry = ex_registry(''Injector'' \<mapsto> Map.empty(PStr ''answer'' \<mapsto> DGenFn ex_hello))\<rparr>"

section \<open>Properties of note parsing\<close>

lemma greedy_rest_no_newline:
  "newline \<notin> set r \<Longrightarrow> greedy_rest acc r = Some (acc @ r)"
  by (induction r arbitrary: acc) (auto simp: at_end_def)

lemma re_note_match_no_newline:
  "newline \<notin> set r \<Longrightarrow>
   re_note_match acc r =
     Some (acc @ fst (split_first_colon r), snd (split_first_colon r))"
proof (induction r arbitrary: acc)
  case Nil
  then show ?case by (simp add: at_end_def)
next
  case (Cons c r)
  show ?case
  proof (cases "c = CHR '':''")
    case True
    with Cons.prems show ?thesis by (simp add: greedy_rest_no_newline)
  next
    case False
    with Cons show ?thesis
      by (cases r) (auto simp: at_end_def split: prod.splits)
  qed
qed

text \<open>
  On a string without a newline the pattern does split at the first colon, and a
  string without a colon has no name.
\<close>

lemma parse_note_string:
  assumes "newline \<notin> set s"
  shows "parse_note (PStr s) =
     Inr (PStr (fst (split_first_colon s)),
          case snd (split_first_colon s) of None \<Rightarrow> PNone | Some n \<Rightarrow> PStr n)"
  using assms
  by (cases "split_first_colon s")
     (simp add: re_note_match_no_newline split: option.splits)

lemma split_first_colon_append:
  "CHR '':'' \<notin> set b \<Longrightarrow> split_first_colon (b @ CHR '':'' # n) = (b, Some n)"
  by (induction b) auto

lemma split_first_colon_none:
  "CHR '':'' \<notin> set s \<Longrightarrow> split_first_colon s = (s, None)"
  by (induction s) auto

lemma parse_note_other:
  "parse_note PNone = Inr (PNone, PNone)"
  "parse_note (PInt i) = Inr (PInt i, PNone)"
  "parse_note (PObj k) = Inr (PObj k, PNone)"
  by simp_all

lemma parse_note_tuple:
  "parse_note (PTuple xs) = (if length xs = 2 then Inr (xs ! 0, xs ! 1) else Inl ValueError)"
  by (auto split: list.splits)

text \<open>
  Claim C9. Note parsing splits every string note at its first colon, gives a string
  without a colon no name, returns any other note that is not a tuple as it is, and
  rejects a tuple whose length is not two. The lemmas above show all of this except on
  strings with a newline. There the pattern falls short of the claim: with a newline
  inside the string \<open>re.match\<close> finds no match and \<open>match.groups()\<close> raises
  \<open>AttributeError\<close>, and a newline that ends the string is cut off the base key.
\<close>

theorem parse_note_newline:
  "parse_note (PStr [CHR ''a'', newline, CHR ''b'']) = Inl AttributeError
   \<and> parse_note (PStr [CHR ''a'', newline]) = Inr (PStr ''a'', PNone)"
  by (simp add: at_end_def)

section \<open>Properties of the provider registry\<close>

lemma register_parsed:
  "parse_note note = Inr (basenote, name) \<Longrightarrow>
   register reg c note provider =
     Inr (reg(c \<mapsto> (case reg c of None \<Rightarrow> Map.empty | Some r \<Rightarrow> r)(basenote \<mapsto> provider)))"
  by (simp add: register_def split: option.splits)

lemma lookup_cong:
  "(\<And>c. c \<in> set cs \<Longrightarrow> reg' c = reg c) \<Longrightarrow> lookup reg' cs basenote = lookup reg cs basenote"
  by (induction cs) (auto split: option.splits)

lemma lookup_Inr_iff:
  "lookup reg ms basenote = Inr d \<longleftrightarrow>
   (\<exists>cs c cs' r. ms = cs @ c # cs' \<and> reg c = Some r \<and> r basenote = Some d \<and>
      (\<forall>c' \<in> set cs. \<forall>r'. reg c' = Some r' \<longrightarrow> r' basenote = None))"
proof (induction ms)
  case Nil
  then show ?case by simp
next
  case (Cons m ms)
  show ?case
  proof (cases "\<exists>r d'. reg m = Some r \<and> r basenote = Some d'")
    case True
    then obtain r d' where m: "reg m = Some r" "r basenote = Some d'" by blast
    have "(\<exists>cs c cs' r. m # ms = cs @ c # cs' \<and> reg c = Some r \<and> r basenote = Some d \<and>
             (\<forall>c' \<in> set cs. \<forall>r'. reg c' = Some r' \<longrightarrow> r' basenote = None)) \<longleftrightarrow> d' = d"
    proof
      assume "\<exists>cs c cs' r. m # ms = cs @ c # cs' \<and> reg c = Some r \<and> r basenote = Some d \<and>
             (\<forall>c' \<in> set cs. \<forall>r'. reg c' = Some r' \<longrightarrow> r' basenote = None)"
      then obtain cs c cs' r' where h: "m # ms = cs @ c # cs'" "reg c = Some r'"
        "r' basenote = Some d"
        "\<forall>c' \<in> set cs. \<forall>r'. reg c' = Some r' \<longrightarrow> r' basenote = None" by blast
      show "d' = d"
      proof (cases cs)
        case Nil
        with h m show ?thesis by simp
      next
        case (Cons x xs)
        with h m show ?thesis by auto
      qed
    next
      assume "d' = d"
      with m have "m # ms = [] @ m # ms \<and> reg m = Some r \<and> r basenote = Some d \<and>
             (\<forall>c' \<in> set []. \<forall>r'. reg c' = Some r' \<longrightarrow> r' basenote = None)" by simp
      then show "\<exists>cs c cs' r. m # ms = cs @ c # cs' \<and> reg c = Some r \<and> r basenote = Some d \<and>
             (\<forall>c' \<in> set cs. \<forall>r'. reg c' = Some r' \<longrightarrow> r' basenote = None)" by blast
    qed
    with m show ?thesis by simp
  next
    case False
    then have skip: "lookup reg (m # ms) basenote = lookup reg ms basenote"
      by (auto split: option.splits)
    have "(\<exists>cs c cs' r. m # ms = cs @ c # cs' \<and> reg c = Some r \<and> r basenote = Some d \<and>
             (\<forall>c' \<in> set cs. \<forall>r'. reg c' = Some r' \<longrightarrow> r' basenote = None)) \<longleftrightarrow>
          (\<exists>cs c cs' r. ms = cs @ c # cs' \<and> reg c = Some r \<and> r basenote = Some d \<and>
             (\<forall>c' \<in> set cs. \<forall>r'. reg c' = Some r' \<longrightarrow> r' basenote = None))"
    proof
      assume "\<exists>cs c cs' r. m # ms = cs @ c # cs' \<and> reg c = Some r \<and> r basenote = Some d \<and>
             (\<forall>c' \<in> set cs. \<forall>r'. reg c' = Some r' \<longrightarrow> r' basenote = None)"
      then obtain cs c cs' r' where h: "m # ms = cs @ c # cs'" "reg c = Some r'"
        "r' basenote = Some d"
        "\<forall>c' \<in> set cs. \<forall>r'. reg c' = Some r' \<longrightarrow> r' basenote = None" by blast
      show "\<exists>cs c cs' r. ms = cs @ c # cs' \<and> reg c = Some r \<and> r basenote = Some d \<and>
             (\<forall>c' \<in> set cs. \<forall>r'. reg c' = Some r' \<longrightarrow> r' basenote = None)"
      proof (cases cs)
        case Nil
        with h False show ?thesis by auto
      next
        case (Cons x xs)
        with h have "ms = xs @ c # cs'" "\<forall>c' \<in> set xs. \<forall>r'. reg c' = Some r' \<longrightarrow> r' basenote = None"
          by auto
        with h show ?thesis by blast
      qed
    next
      assume "\<exists>cs c cs' r. ms = cs @ c # cs' \<and> reg c = Some r \<and> r basenote = Some d \<and>
             (\<forall>c' \<in> set cs. \<forall>r'. reg c' = Some r' \<longrightarrow> r' basenote = None)"
      then obtain cs c cs' r' where h: "ms = cs @ c # cs'" "reg c = Some r'"
        "r' basenote = Some d"
        "\<forall>c' \<in> set cs. \<forall>r'. reg c' = Some r' \<longrightarrow> r' basenote = None" by blast
      with False have "m # ms = (m # cs) @ c # cs' \<and> reg c = Some r' \<and> r' basenote = Some d \<and>
             (\<forall>c' \<in> set (m # cs). \<forall>r'. reg c' = Some r' \<longrightarrow> r' basenote = None)" by auto
      then show "\<exists>cs c cs' r. m # ms = cs @ c # cs' \<and> reg c = Some r \<and> r basenote = Some d \<and>
             (\<forall>c' \<in> set cs. \<forall>r'. reg c' = Some r' \<longrightarrow> r' basenote = None)" by blast
    qed
    with skip Cons.IH show ?thesis by simp
  qed
qed

lemma lookup_Inl_iff:
  "lookup reg ms basenote = Inl e \<longleftrightarrow>
   e = LookupError \<and> (\<forall>c \<in> set ms. \<forall>r. reg c = Some r \<longrightarrow> r basenote = None)"
  by (induction ms) (auto split: option.splits)

text \<open>
  Claim C4. \<open>lookup\<close> returns the registration of the first class of the method
  resolution order that has one for the base key, and raises \<open>LookupError\<close> exactly
  when no class of the order has one. When a class \<open>S\<close> registers a base key, an
  injector of class \<open>S\<close> (whose order starts with \<open>S\<close>) gets that descriptor, the
  table of every other class is the one it was, and a lookup along an order without
  \<open>S\<close> (that of an ancestor \<open>T\<close>) gives what it gave before.
\<close>

theorem lookup_most_derived_first:
  assumes "parse_note note = Inr (basenote, name)"
    and "register reg S note d = Inr reg'"
    and "S \<notin> set mro_T"
  shows "lookup reg' (S # mro_T) basenote = Inr d
    \<and> (\<forall>T. T \<noteq> S \<longrightarrow> reg' T = reg T)
    \<and> (\<forall>b. lookup reg' mro_T b = lookup reg mro_T b)
    \<and> (\<forall>ms b d'. lookup reg ms b = Inr d' \<longleftrightarrow>
          (\<exists>cs c cs' r. ms = cs @ c # cs' \<and> reg c = Some r \<and> r b = Some d' \<and>
             (\<forall>c' \<in> set cs. \<forall>r'. reg c' = Some r' \<longrightarrow> r' b = None)))
    \<and> (\<forall>ms b. lookup reg ms b = Inl LookupError \<longleftrightarrow>
          (\<forall>c \<in> set ms. \<forall>r. reg c = Some r \<longrightarrow> r b = None))"
proof -
  from assms(1,2) have reg': "reg' = reg(S \<mapsto> (case reg S of None \<Rightarrow> Map.empty | Some r \<Rightarrow> r)(basenote \<mapsto> d))"
    by (simp add: register_parsed)
  have 1: "lookup reg' (S # mro_T) basenote = Inr d"
    by (simp add: reg')
  have 2: "\<forall>T. T \<noteq> S \<longrightarrow> reg' T = reg T"
    by (simp add: reg')
  have 3: "\<forall>b. lookup reg' mro_T b = lookup reg mro_T b"
  proof
    fix b
    show "lookup reg' mro_T b = lookup reg mro_T b"
    proof (rule lookup_cong)
      fix c assume "c \<in> set mro_T"
      with assms(3) have "c \<noteq> S" by auto
      with 2 show "reg' c = reg c" by simp
    qed
  qed
  have 4: "\<forall>ms b d'. lookup reg ms b = Inr d' \<longleftrightarrow>
          (\<exists>cs c cs' r. ms = cs @ c # cs' \<and> reg c = Some r \<and> r b = Some d' \<and>
             (\<forall>c' \<in> set cs. \<forall>r'. reg c' = Some r' \<longrightarrow> r' b = None))"
    using lookup_Inr_iff by blast
  have 5: "\<forall>ms b. lookup reg ms b = Inl LookupError \<longleftrightarrow>
          (\<forall>c \<in> set ms. \<forall>r. reg c = Some r \<longrightarrow> r b = None)"
    by (simp add: lookup_Inl_iff)
  from 1 2 3 4 5 show ?thesis by blast
qed

text \<open>
  The registry of the example, with \<open>SubInjector\<close> registering \<open>'answer'\<close> again: a
  \<open>SubInjector\<close> gets the new descriptor, an \<open>Injector\<close> the old one.
\<close>

theorem lookup_most_derived_first_witness:
  "parse_note (PStr ''answer'') = Inr (PStr ''answer'', PNone)
   \<and> register ex_registry ''SubInjector'' (PStr ''answer'') (DObj (ex_function (PInt 7)))
       = Inr (ex_registry(''SubInjector'' \<mapsto> Map.empty(PStr ''answer'' \<mapsto> DObj (ex_function (PInt 7)))))
   \<and> ''SubInjector'' \<notin> set [''Injector'', ''object'']
   \<and> lookup (ex_registry(''SubInjector'' \<mapsto> Map.empty(PStr ''answer'' \<mapsto> DObj (ex_function (PInt 7)))))
        [''SubInjector'', ''Injector'', ''object''] (PStr ''answer'') = Inr (DObj (ex_function (PInt 7)))
   \<and> lookup (ex_registry(''SubInjector'' \<mapsto> Map.empty(PStr ''answer'' \<mapsto> DObj (ex_function (PInt 7)))))
        [''Injector'', ''object''] (PStr ''answer'') = Inr (DObj (ex_function (PInt 42)))"
proof -
  have h1: "parse_note (PStr ''answer'') = Inr (PStr ''answer'', PNone)"
    by (simp add: at_end_def)
  have h2: "register ex_registry ''SubInjector'' (PStr ''answer'') (DObj (ex_function (PInt 7)))
       = Inr (ex_registry(''SubInjector'' \<mapsto> Map.empty(PStr ''answer'' \<mapsto> DObj (ex_function (PInt 7)))))"
    by (simp add: register_def at_end_def ex_registry_def)
  have h3: "''SubInjector'' \<notin> set [''Injector'', ''object'']"
    by simp
  have old: "lookup ex_registry [''Injector'', ''object''] (PStr ''answer'')
       = Inr (DObj (ex_function (PInt 42)))"
    by (simp add: ex_registry_def)
  from lookup_most_derived_first [OF h1 h2 h3] h1 h2 h3 old show ?thesis
    by simp
qed

text \<open>
  Claim C10. \<open>register\<close> does not use the name of the note: two notes with the same
  base key, whatever their names, give the same registry, in which the provider is
  stored in the class's own table under the base key alone; \<open>lookup\<close>, which
  \<open>resolve\<close> calls with the base key for unnamed and named notes alike, then finds it.
\<close>

theorem register_ignores_name:
  assumes "parse_note note = Inr (basenote, name)"
    and "parse_note note' = Inr (basenote, name')"
  shows "register reg c note provider = register reg c note' provider
    \<and> register reg c note provider =
        Inr (reg(c \<mapsto> (case reg c of None \<Rightarrow> Map.empty | Some r \<Rightarrow> r)(basenote \<mapsto> provider)))
    \<and> (\<forall>reg' cs. register reg c note provider = Inr reg' \<longrightarrow>
          lookup reg' (c # cs) basenote = Inr provider)"
  using assms by (simp add: register_parsed)

theorem register_ignores_name_witness:
  "parse_note (PStr ''universe:here'') = Inr (PStr ''universe'', PStr ''here'')
   \<and> parse_note (PStr ''universe'') = Inr (PStr ''universe'', PNone)
   \<and> register ex_registry ''Injector'' (PStr ''universe:here'') (DObj (ex_function (PInt 7)))
       = register ex_registry ''Injector'' (PStr ''universe'') (DObj (ex_function (PInt 7)))
   \<and> register ex_registry ''Injector'' (PStr ''universe:here'') (DObj (ex_function (PInt 7)))
       = Inr (ex_registry(''Injector'' \<mapsto>
                Map.empty(PStr ''answer'' \<mapsto> DObj (ex_function (PInt 42)),
                          PStr ''universe'' \<mapsto> DObj (ex_function (PInt 7)))))
   \<and> lookup (ex_registry(''Injector'' \<mapsto>
                Map.empty(PStr ''answer'' \<mapsto> DObj (ex_function (PInt 42)),
                          PStr ''universe'' \<mapsto> DObj (ex_function (PInt 7)))))
         [''Injector'', ''object''] (PStr ''universe'')
       = Inr (DObj (ex_function (PInt 7)))"
proof -
  have h1: "parse_note (PStr ''universe:here'') = Inr (PStr ''universe'', PStr ''here'')"
    by (simp add: at_end_def)
  have h2: "parse_note (PStr ''universe'') = Inr (PStr ''universe'', PNone)"
    by (simp add: at_end_def)
  have tbl: "ex_registry ''Injector'' = Some (Map.empty(PStr ''answer'' \<mapsto> DObj (ex_function (PInt 42))))"
    by (simp add: ex_registry_def)
  note t = register_ignores_name [OF h1 h2, of ex_registry "''Injector''" "DObj (ex_function (PInt 7))"]
  from t have c1: "register ex_registry ''Injector'' (PStr ''universe:here'') (DObj (ex_function (PInt 7)))
       = register ex_registry ''Injector'' (PStr ''universe'') (DObj (ex_function (PInt 7)))"
    by blast
  from t [THEN conjunct2, THEN conjunct1] tbl have c2: "register ex_registry ''Injector'' (PStr ''universe:here'') (DObj (ex_function (PInt 7)))
       = Inr (ex_registry(''Injector'' \<mapsto>
                Map.empty(PStr ''answer'' \<mapsto> DObj (ex_function (PInt 42)),
                          PStr ''universe'' \<mapsto> DObj (ex_function (PInt 7)))))"
    by simp
  from t [THEN conjunct2, THEN conjunct2] c2
  have c3: "lookup (ex_registry(''Injector'' \<mapsto>
                Map.empty(PStr ''answer'' \<mapsto> DObj (ex_function (PInt 42)),
                          PStr ''universe'' \<mapsto> DObj (ex_function (PInt 7)))))
         (''Injector'' # [''object'']) (PStr ''universe'')
       = Inr (DObj (ex_function (PInt 7)))"
    by blast
  show ?thesis
    by (intro conjI) (rule h1 h2 c1 c2 c3)+
qed

section \<open>What \<open>resolve\<close> preserves\<close>

text \<open>
  A property of the injector that every nested \<open>resolve\<close> preserves is preserved by
  the functions that change the injector only through \<open>resolve\<close>, and by
  \<open>handle_provider\<close> when the assignments it makes for its base key preserve it.
\<close>

lemma resolve_all_preserves:
  assumes "\<And>s k. P s \<Longrightarrow> P (snd (res s k))" and "P st"
  shows "P (snd (resolve_all res st ks))"
  using assms(2)
proof (induction ks arbitrary: st)
  case Nil
  then show ?case by simp
next
  case (Cons k ks)
  obtain r s where r: "res st k = (r, s)"
    by (cases "res st k")
  with assms(1) [OF Cons.prems, of k] have s: "P s" by simp
  show ?case
  proof (cases r)
    case (Inl e)
    with r s show ?thesis by simp
  next
    case (Inr x)
    with r Cons.IH [OF s] show ?thesis
      by (auto split: prod.splits sum.splits)
  qed
qed

lemma fulfill_keywords_preserves:
  assumes "\<And>s k. P s \<Longrightarrow> P (snd (res s k))" and "P st"
  shows "P (snd (fulfill_keywords res st kws acc))"
  using assms(2)
proof (induction kws arbitrary: st acc)
  case Nil
  then show ?case by simp
next
  case (Cons a kws)
  obtain arg k where a: "a = (arg, k)"
    by (cases a)
  obtain r s where r: "res st k = (r, s)"
    by (cases "res st k")
  with assms(1) [OF Cons.prems, of k] have s: "P s" by simp
  show ?case
  proof (cases r)
    case (Inr x)
    with a r Cons.IH [OF s] show ?thesis by simp
  next
    case (Inl e)
    with a r s Cons.IH [OF s] show ?thesis by (cases e) simp_all
  qed
qed

lemma fulfill_with_preserves:
  assumes "\<And>s k. P s \<Longrightarrow> P (snd (res s k))" and "P st"
  shows "P (snd (fulfill_with res st ks kws))"
proof -
  obtain r s where r: "resolve_all res st ks = (r, s)"
    by (cases "resolve_all res st ks")
  with resolve_all_preserves [of P res st ks, OF assms] have s: "P s" by simp
  show ?thesis
  proof (cases r)
    case (Inl e)
    with r s show ?thesis by (simp add: fulfill_with_def)
  next
    case (Inr args)
    with r fulfill_keywords_preserves [of P res s kws "[]", OF assms(1) s] show ?thesis
      by (auto simp: fulfill_with_def split: prod.splits sum.splits)
  qed
qed

lemma prepare_with_preserves:
  assumes "\<And>s k. P s \<Longrightarrow> P (snd (res s k))" and "P st"
  shows "P (snd (prepare_with res st sg))"
  using fulfill_with_preserves [of P res st, OF assms] assms(2)
  by (auto simp: prepare_with_def split: sum.splits prod.splits)

lemma partial_with_preserves:
  assumes "\<And>s k. P s \<Longrightarrow> P (snd (res s k))" and "P st"
  shows "P (snd (partial_with res st fn))"
  using prepare_with_preserves [of P res st "fn_sig fn", OF assms]
  by (auto simp: partial_with_def split: sum.splits prod.splits)

lemma partial_if_annotated_preserves:
  assumes "\<And>s k. P s \<Longrightarrow> P (snd (res s k))" and "P st"
  shows "P (snd (partial_if_annotated res st fn))"
  using partial_with_preserves [of P res st fn, OF assms] assms(2)
  by (simp add: partial_if_annotated_def)

lemma init_generator_preserves:
  assumes "\<And>s k. P s \<Longrightarrow> P (snd (res s k))" and "P st"
  shows "P (snd (init_generator_with res st g))"
  using prepare_with_preserves [of P res st "g_sig g", OF assms] assms(2)
  by (auto simp: init_generator_with_def split: option.splits sum.splits prod.splits)

lemma call_provider_preserves:
  assumes res: "\<And>s k. P s \<Longrightarrow> P (snd (res s k))"
    and st: "P st"
    and V: "\<And>s x. name = PNone \<Longrightarrow> P s \<Longrightarrow> P (s\<lparr>vals := (vals s)(basenote \<mapsto> x)\<rparr>)"
    and I: "\<And>s p. P s \<Longrightarrow> P (s\<lparr>instances := AList.update basenote p (instances s)\<rparr>)"
  shows "P (snd (call_provider res st provider pnote basenote name))"
proof (cases provider)
  case (GenInst g sn gs iv)
  obtain r p' where g: "gp_get g sn gs iv name = (r, p')"
    by (cases "gp_get g sn gs iv name")
  show ?thesis
  proof (cases "name = PNone")
    case True
    with GenInst g st V [OF True st] show ?thesis
      by (cases r) (simp_all add: call_provider_def)
  next
    case False
    with GenInst g I [OF st, of p'] show ?thesis
      by (cases r) (simp_all add: call_provider_def)
  qed
next
  case (Inst ob)
  show ?thesis
  proof (cases "case ob_get ob of Some get \<Rightarrow> Some get | None \<Rightarrow> ob_call ob")
    case None
    with Inst st show ?thesis by (simp add: call_provider_def)
  next
    case (Some fn)
    obtain r s where r: "partial_if_annotated res st fn = (r, s)"
      by (cases "partial_if_annotated res st fn")
    with partial_if_annotated_preserves [of P res st fn, OF res st] have s: "P s" by simp
    show ?thesis
    proof (cases r)
      case (Inl e)
      with Inst Some r s show ?thesis by (simp add: call_provider_def)
    next
      case (Inr call)
      show ?thesis
      proof (cases "name = PNone")
        case True
        with Inst Some r Inr s V [OF True s] show ?thesis
          by (simp add: call_provider_def split: sum.splits)
      next
        case False
        with Inst Some r Inr s show ?thesis
          by (simp add: call_provider_def)
      qed
    qed
  qed
qed

lemma handle_provider_preserves:
  assumes res: "\<And>s k. P s \<Longrightarrow> P (snd (res s k))"
    and st: "P st"
    and V: "\<And>s x. name = PNone \<Longrightarrow> P s \<Longrightarrow> P (s\<lparr>vals := (vals s)(basenote \<mapsto> x)\<rparr>)"
    and I: "\<And>s p. P s \<Longrightarrow> P (s\<lparr>instances := AList.update basenote p (instances s)\<rparr>)"
    and G: "\<And>g s x. d = DGenFn g \<Longrightarrow> map_of (instances st) basenote = None \<Longrightarrow> P s \<Longrightarrow>
              P (s\<lparr>vals := (vals s)(basenote \<mapsto> x)\<rparr>)"
  shows "P (snd (handle_provider_with res st d pnote basenote name))"
proof (cases "map_of (instances st) basenote")
  case (Some provider)
  with call_provider_preserves [of P res st name basenote provider pnote, OF res st V I]
  show ?thesis by (simp add: handle_provider_with_def)
next
  case None
  show ?thesis
  proof (cases d)
    case (DObj ob)
    with None call_provider_preserves [of P res st name basenote "Inst ob" pnote, OF res st V I]
    show ?thesis by (simp add: handle_provider_with_def)
  next
    case (DClass construct)
    show ?thesis
    proof (cases construct)
      case (Inl e)
      with None DClass st show ?thesis by (simp add: handle_provider_with_def)
    next
      case (Inr ob)
      let ?st = "st\<lparr>instances := AList.update basenote (Inst ob) (instances st)\<rparr>"
      from I [OF st] have "P ?st" .
      from call_provider_preserves [of P res ?st name basenote "Inst ob" pnote, OF res this V I]
        None DClass Inr
      show ?thesis by (simp add: handle_provider_with_def)
    qed
  next
    case (DGenFn g)
    obtain r s where r: "init_generator_with res st g = (r, s)"
      by (cases "init_generator_with res st g")
    with init_generator_preserves [of P res st g, OF res st] have s: "P s" by simp
    show ?thesis
    proof (cases r)
      case (Inl e)
      with None DGenFn r s show ?thesis by (simp add: handle_provider_with_def)
    next
      case (Inr pv)
      obtain p x where pv: "pv = (p, x)"
        by (cases pv)
      let ?s2 = "s\<lparr>instances := AList.update basenote p (instances s),
                    vals := (vals s)(basenote \<mapsto> x)\<rparr>"
      from I [OF s, of p] have "P (s\<lparr>instances := AList.update basenote p (instances s)\<rparr>)" .
      from G [OF DGenFn None this, of x] have s2: "P ?s2"
        by simp
      have hp: "handle_provider_with res st d pnote basenote name =
          (if name = PNone then (Inr x, ?s2)
           else call_provider res ?s2 p pnote basenote name)"
        unfolding handle_provider_with_def None DGenFn
        by (simp add: r Inr pv Let_def)
      show ?thesis
      proof (cases "name = PNone")
        case True
        with hp s2 show ?thesis by simp
      next
        case False
        with hp call_provider_preserves [of P res ?s2 name basenote p pnote, OF res s2 V I]
        show ?thesis by simp
      qed
    qed
  qed
qed

text \<open>
  A property that every assignment to \<open>values\<close> and to \<open>instances\<close> preserves is
  preserved by \<open>resolve\<close>. So \<open>resolve\<close> never changes the \<open>closed\<close> flag and calls
  no \<open>close\<close>, it only appends keys to \<open>instances\<close> (the order of \<open>instances\<close> is the
  order in which the providers were first materialized), and a materialized provider
  stays materialized.
\<close>

lemma resolve_with_preserves:
  assumes res: "\<And>s k. P s \<Longrightarrow> P (snd (res s k))"
    and st: "P st"
    and V: "\<And>s b x. P s \<Longrightarrow> P (s\<lparr>vals := (vals s)(b \<mapsto> x)\<rparr>)"
    and I: "\<And>s b p. P s \<Longrightarrow> P (s\<lparr>instances := AList.update b p (instances s)\<rparr>)"
  shows "P (snd (resolve_with res C st k))"
proof (cases "parse_note k")
  case (Inl e)
  with st show ?thesis by (simp add: resolve_with_def)
next
  case (Inr bn)
  obtain basenote name where bn: "bn = (basenote, name)"
    by (cases bn)
  show ?thesis
  proof (cases "if name = PNone then vals st basenote else None")
    case (Some x)
    with Inr bn st show ?thesis by (simp add: resolve_with_def)
  next
    case None
    show ?thesis
    proof (cases "lookup (registry C) (mro C) basenote")
      case (Inl e)
      with Inr bn None st show ?thesis by (simp add: resolve_with_def)
    next
      case d: (Inr d)
      from handle_provider_preserves [of P res st name basenote d k, OF res st V I V]
        Inr bn None d
      show ?thesis by (simp add: resolve_with_def)
    qed
  qed
qed

lemma resolve_preserves:
  assumes st: "P st"
    and V: "\<And>s b x. P s \<Longrightarrow> P (s\<lparr>vals := (vals s)(b \<mapsto> x)\<rparr>)"
    and I: "\<And>s b p. P s \<Longrightarrow> P (s\<lparr>instances := AList.update b p (instances s)\<rparr>)"
  shows "P (snd (resolve n C st k))"
  using st
proof (induction n arbitrary: st k)
  case 0
  then show ?case by simp
next
  case (Suc n)
  have res: "\<And>s k. P s \<Longrightarrow> P (snd (resolve n C s k))"
    by (rule Suc.IH)
  from resolve_with_preserves [of P "resolve n C" st C k, OF res Suc.prems V I]
  show ?case by simp
qed

lemma resolve_keeps_flag:
  "closed (snd (resolve n C st k)) = closed st
   \<and> close_calls (snd (resolve n C st k)) = close_calls st"
  by (rule resolve_preserves [of "\<lambda>s. closed s = closed st \<and> close_calls s = close_calls st"])
     simp_all

lemma resolve_appends_instances:
  "\<exists>ks. map fst (instances (snd (resolve n C st k))) = map fst (instances st) @ ks"
  by (rule resolve_preserves [of "\<lambda>s. \<exists>ks. map fst (instances s) = map fst (instances st) @ ks"])
     (auto simp: update_keys)

lemma resolve_keeps_instance:
  "map_of (instances st) b \<noteq> None \<Longrightarrow> map_of (instances (snd (resolve n C st k))) b \<noteq> None"
  by (rule resolve_preserves [of "\<lambda>s. map_of (instances s) b \<noteq> None"])
     (auto simp: update_conv')

text \<open>
  With the registry as it is, \<open>resolve\<close> keeps the caches consistent: the value of a
  generator function is only ever cached together with its provider. A new injector
  is consistent, and so is every injector reached from it by \<open>resolve\<close> calls under one
  registry.
\<close>

lemma cache_consistent_instances:
  "cache_consistent C s \<Longrightarrow>
   cache_consistent C (s\<lparr>instances := AList.update b p (instances s)\<rparr>)"
  by (auto simp: cache_consistent_def update_conv')

lemma cache_consistent_vals:
  assumes "cache_consistent C s"
    and "map_of (instances s) b \<noteq> None \<or> (\<forall>g. lookup (registry C) (mro C) b \<noteq> Inr (DGenFn g))"
  shows "cache_consistent C (s\<lparr>vals := (vals s)(b \<mapsto> x)\<rparr>)"
  using assms by (auto simp: cache_consistent_def)

lemma resolve_with_cache_consistent:
  assumes res: "\<And>s k. cache_consistent C s \<Longrightarrow> cache_consistent C (snd (res s k))"
    and keep: "\<And>s k b. map_of (instances s) b \<noteq> None \<Longrightarrow>
                 map_of (instances (snd (res s k))) b \<noteq> None"
    and st: "cache_consistent C st"
  shows "cache_consistent C (snd (resolve_with res C st k))"
proof (cases "parse_note k")
  case (Inl e)
  with st show ?thesis by (simp add: resolve_with_def)
next
  case (Inr bn)
  obtain basenote name where bn: "bn = (basenote, name)"
    by (cases bn)
  show ?thesis
  proof (cases "if name = PNone then vals st basenote else None")
    case (Some x)
    with Inr bn st show ?thesis by (simp add: resolve_with_def)
  next
    case None
    show ?thesis
    proof (cases "lookup (registry C) (mro C) basenote")
      case (Inl e)
      with Inr bn None st show ?thesis by (simp add: resolve_with_def)
    next
      case d: (Inr d)
      have rw: "resolve_with res C st k = handle_provider_with res st d k basenote name"
        using Inr bn None d by (simp add: resolve_with_def)
      let ?Q = "\<lambda>s. cache_consistent C s \<and> map_of (instances s) basenote \<noteq> None"
      have Qres: "\<And>s k. ?Q s \<Longrightarrow> ?Q (snd (res s k))"
        using res keep by blast
      have QV: "\<And>s x. name = PNone \<Longrightarrow> ?Q s \<Longrightarrow> ?Q (s\<lparr>vals := (vals s)(basenote \<mapsto> x)\<rparr>)"
        by (simp add: cache_consistent_vals)
      have QI: "\<And>s p. ?Q s \<Longrightarrow> ?Q (s\<lparr>instances := AList.update basenote p (instances s)\<rparr>)"
        by (simp add: cache_consistent_instances update_conv')
      have I: "\<And>s p. cache_consistent C s \<Longrightarrow>
            cache_consistent C (s\<lparr>instances := AList.update basenote p (instances s)\<rparr>)"
        by (rule cache_consistent_instances)
      show ?thesis
      proof (cases "map_of (instances st) basenote")
        case (Some provider)
        with st have "?Q st" by simp
        from call_provider_preserves [of ?Q res st name basenote provider k, OF Qres this QV QI]
          Some rw
        show ?thesis by (simp add: handle_provider_with_def)
      next
        case none: None
        show ?thesis
        proof (cases "\<exists>g. d = DGenFn g")
          case False
          with d have nogen: "\<forall>g. lookup (registry C) (mro C) basenote \<noteq> Inr (DGenFn g)"
            by auto
          have V: "\<And>s x. name = PNone \<Longrightarrow> cache_consistent C s \<Longrightarrow>
                cache_consistent C (s\<lparr>vals := (vals s)(basenote \<mapsto> x)\<rparr>)"
            using nogen by (simp add: cache_consistent_vals)
          have G: "\<And>g s x. d = DGenFn g \<Longrightarrow> map_of (instances st) basenote = None \<Longrightarrow>
                cache_consistent C s \<Longrightarrow>
                cache_consistent C (s\<lparr>vals := (vals s)(basenote \<mapsto> x)\<rparr>)"
            using False by blast
          from handle_provider_preserves [of "cache_consistent C" res st name basenote d k,
              OF res st V I G] rw
          show ?thesis by simp
        next
          case True
          then obtain g where g: "d = DGenFn g" by blast
          obtain r s where r: "init_generator_with res st g = (r, s)"
            by (cases "init_generator_with res st g")
          with init_generator_preserves [of "cache_consistent C" res st g, OF res st]
          have s: "cache_consistent C s" by simp
          show ?thesis
          proof (cases r)
            case (Inl e)
            with none g r s rw show ?thesis by (simp add: handle_provider_with_def)
          next
            case (Inr pv)
            obtain p x where pv: "pv = (p, x)"
              by (cases pv)
            let ?s2 = "s\<lparr>instances := AList.update basenote p (instances s),
                          vals := (vals s)(basenote \<mapsto> x)\<rparr>"
            let ?s1 = "s\<lparr>instances := AList.update basenote p (instances s)\<rparr>"
            from cache_consistent_instances [OF s, of basenote p]
            have s1: "cache_consistent C ?s1" and in1: "map_of (instances ?s1) basenote \<noteq> None"
              by (simp_all add: update_conv')
            from cache_consistent_vals [of C ?s1 basenote x] s1 in1
            have "cache_consistent C (?s1\<lparr>vals := (vals ?s1)(basenote \<mapsto> x)\<rparr>)"
              by blast
            with in1 have s2: "?Q ?s2"
              by simp
            have hp: "handle_provider_with res st d k basenote name =
                (if name = PNone then (Inr x, ?s2)
                 else call_provider res ?s2 p k basenote name)"
              unfolding handle_provider_with_def none g
              by (simp add: r Inr pv Let_def)
            show ?thesis
            proof (cases "name = PNone")
              case True
              with hp s2 rw show ?thesis by simp
            next
              case False
              with hp rw call_provider_preserves [of ?Q res ?s2 name basenote p k, OF Qres s2 QV QI]
              show ?thesis by simp
            qed
          qed
        qed
      qed
    qed
  qed
qed

lemma resolve_cache_consistent:
  "cache_consistent C st \<Longrightarrow> cache_consistent C (snd (resolve n C st k))"
proof (induction n arbitrary: st k)
  case 0
  then show ?case by simp
next
  case (Suc n)
  have res: "\<And>s k. cache_consistent C s \<Longrightarrow> cache_consistent C (snd (resolve n C s k))"
    by (rule Suc.IH)
  have keep: "\<And>s k b. map_of (instances s) b \<noteq> None \<Longrightarrow>
                 map_of (instances (snd (resolve n C s k))) b \<noteq> None"
    by (rule resolve_keeps_instance)
  from resolve_with_cache_consistent [of C "resolve n C" st k, OF res keep Suc.prems]
  show ?case by simp
qed

lemma new_injector_cache_consistent: "cache_consistent C new_injector"
  by (simp add: cache_consistent_def new_injector_def)

lemma cache_consistent_cached:
  "cache_consistent C st \<Longrightarrow> vals st b = Some v \<Longrightarrow>
   map_of (instances st) b \<noteq> None \<or> (\<forall>g. lookup (registry C) (mro C) b \<noteq> Inr (DGenFn g))"
  by (auto simp: cache_consistent_def)

section \<open>Properties of \<open>close\<close>\<close>

lemmas run_simps =
  resolve_with_def handle_provider_with_def call_provider_def init_generator_with_def
  partial_if_annotated_def partial_with_def prepare_with_def fulfill_with_def
  collect_notes_def has_annotations_def gp_init_def gp_get_def gp_close_def gen_send_def
  gen_close_def provider_close_def close_def at_end_def new_injector_def
  functools_partial_def dict_update_def

lemma ex_two_reached:
  "snd (resolve (Suc (Suc 0)) ex_class
          (snd (resolve (Suc (Suc 0)) ex_class new_injector (PStr ''db'')))
          (PStr ''answer'')) = ex_two"
  by (simp add: run_simps ex_class_def ex_providers_def ex_db_def ex_answer_def ex_two_def)

lemma ex_one_reached:
  "resolve (Suc (Suc 0)) ex_class new_injector (PStr ''answer'') = (Inr (PInt 42), ex_one)"
  by (simp add: run_simps ex_class_def ex_providers_def ex_answer_def ex_one_def)

lemma close_loop_result:
  "close_loop ps calls = (r, ps', calls') \<Longrightarrow>
   (case r of
      None \<Rightarrow>
        (\<forall>(k, p) \<in> set ps. fst (provider_close p) = None)
        \<and> ps' = map (\<lambda>(k, p). (k, snd (provider_close p))) ps
        \<and> calls' = calls @ map fst ps
    | Some e \<Rightarrow>
        (\<exists>pre k p post. ps = pre @ (k, p) # post
           \<and> (\<forall>(k', p') \<in> set pre. fst (provider_close p') = None)
           \<and> fst (provider_close p) = Some e
           \<and> ps' = map (\<lambda>(k, p). (k, snd (provider_close p))) pre
                    @ (k, snd (provider_close p)) # post
           \<and> calls' = calls @ map fst pre @ [k]))"
proof (induction ps arbitrary: calls r ps' calls')
  case Nil
  then show ?case by simp
next
  case (Cons kp ps)
  obtain k p where kp: "kp = (k, p)" by (cases kp)
  obtain c p1 where pc: "provider_close p = (c, p1)" by (cases "provider_close p")
  show ?case
  proof (cases c)
    case (Some e)
    with Cons.prems kp pc have "r = Some e" "ps' = (k, p1) # ps" "calls' = calls @ [k]"
      by auto
    with kp pc Some have "kp # ps = [] @ (k, p) # ps
           \<and> (\<forall>(k', p') \<in> set []. fst (provider_close p') = None)
           \<and> fst (provider_close p) = Some e
           \<and> ps' = map (\<lambda>(k, p). (k, snd (provider_close p))) []
                    @ (k, snd (provider_close p)) # ps
           \<and> calls' = calls @ map fst [] @ [k]"
      by simp
    then have "\<exists>pre k p post. kp # ps = pre @ (k, p) # post
           \<and> (\<forall>(k', p') \<in> set pre. fst (provider_close p') = None)
           \<and> fst (provider_close p) = Some e
           \<and> ps' = map (\<lambda>(k, p). (k, snd (provider_close p))) pre
                    @ (k, snd (provider_close p)) # post
           \<and> calls' = calls @ map fst pre @ [k]"
      by blast
    with \<open>r = Some e\<close> show ?thesis by simp
  next
    case None
    obtain r2 ps2 calls2 where rec: "close_loop ps (calls @ [k]) = (r2, ps2, calls2)"
      by (cases "close_loop ps (calls @ [k])") auto
    with Cons.prems kp pc None have res: "r = r2" "ps' = (k, p1) # ps2" "calls' = calls2"
      by auto
    note IH = Cons.IH [OF rec]
    show ?thesis
    proof (cases r2)
      case None
      with IH res kp pc \<open>c = None\<close> show ?thesis by simp
    next
      case (Some e)
      with IH obtain pre k' p' post where h: "ps = pre @ (k', p') # post"
        "\<forall>(k', p') \<in> set pre. fst (provider_close p') = None"
        "fst (provider_close p') = Some e"
        "ps2 = map (\<lambda>(k, p). (k, snd (provider_close p))) pre
                    @ (k', snd (provider_close p')) # post"
        "calls2 = (calls @ [k]) @ map fst pre @ [k']"
        by auto
      with res kp pc \<open>c = None\<close> have "kp # ps = ((k, p) # pre) @ (k', p') # post
           \<and> (\<forall>(k', p') \<in> set ((k, p) # pre). fst (provider_close p') = None)
           \<and> fst (provider_close p') = Some e
           \<and> ps' = map (\<lambda>(k, p). (k, snd (provider_close p))) ((k, p) # pre)
                    @ (k', snd (provider_close p')) # post
           \<and> calls' = calls @ map fst ((k, p) # pre) @ [k']"
        by simp
      then have "\<exists>pre k p post. kp # ps = pre @ (k, p) # post
           \<and> (\<forall>(k', p') \<in> set pre. fst (provider_close p') = None)
           \<and> fst (provider_close p) = Some e
           \<and> ps' = map (\<lambda>(k, p). (k, snd (provider_close p))) pre
                    @ (k, snd (provider_close p)) # post
           \<and> calls' = calls @ map fst pre @ [k]"
        by blast
      with res Some show ?thesis by simp
    qed
  qed
qed

lemma close_cases:
  assumes "\<not> closed st" and "close st = (r, st')"
  shows "vals st' = vals st \<and>
   (case r of
      Inr u \<Rightarrow>
        closed st'
        \<and> (\<forall>(k, p) \<in> set (instances st). fst (provider_close p) = None)
        \<and> instances st' = map (\<lambda>(k, p). (k, snd (provider_close p))) (instances st)
        \<and> close_calls st' = close_calls st @ map fst (instances st)
    | Inl e \<Rightarrow>
        \<not> closed st'
        \<and> (\<exists>pre k p post. instances st = pre @ (k, p) # post
             \<and> (\<forall>(k', p') \<in> set pre. fst (provider_close p') = None)
             \<and> fst (provider_close p) = Some e
             \<and> instances st' = map (\<lambda>(k, p). (k, snd (provider_close p))) pre
                      @ (k, snd (provider_close p)) # post
             \<and> close_calls st' = close_calls st @ map fst pre @ [k]))"
proof -
  obtain c ps calls where loop: "close_loop (instances st) (close_calls st) = (c, ps, calls)"
    by (cases "close_loop (instances st) (close_calls st)") auto
  note res = close_loop_result [OF loop]
  show ?thesis
  proof (cases c)
    case None
    with assms loop have "r = Inr ()" "st' = st\<lparr>instances := ps, close_calls := calls, closed := True\<rparr>"
      by (auto simp: close_def)
    with res None show ?thesis by simp
  next
    case (Some e)
    with assms loop have "r = Inl e" "st' = st\<lparr>instances := ps, close_calls := calls\<rparr>"
      by (auto simp: close_def)
    with res Some assms(1) show ?thesis by simp
  qed
qed

text \<open>
  Claim C1, as amended. \<open>close\<close> calls the \<open>close\<close> of the materialized providers in
  the order of \<open>instances\<close> and has no handler around the call: the first \<open>close\<close>
  that raises ends the loop, its error is the error of \<open>Injector.close\<close>, the
  providers after it are left as they were, without a \<open>close\<close> call, and the \<open>closed\<close>
  flag stays unset. Only when no provider raises does every materialized provider
  get its one \<open>close\<close> call and the flag get set.
\<close>

theorem close_stops_at_first_failure:
  assumes "\<not> closed st" and "close st = (r, st')"
  shows "vals st' = vals st \<and>
   (case r of
      Inr u \<Rightarrow>
        closed st'
        \<and> (\<forall>(k, p) \<in> set (instances st). fst (provider_close p) = None)
        \<and> instances st' = map (\<lambda>(k, p). (k, snd (provider_close p))) (instances st)
        \<and> close_calls st' = close_calls st @ map fst (instances st)
    | Inl e \<Rightarrow>
        \<not> closed st'
        \<and> (\<exists>pre k p post. instances st = pre @ (k, p) # post
             \<and> (\<forall>(k', p') \<in> set pre. fst (provider_close p') = None)
             \<and> fst (provider_close p) = Some e
             \<and> instances st' = map (\<lambda>(k, p). (k, snd (provider_close p))) pre
                      @ (k, snd (provider_close p)) # post
             \<and> close_calls st' = close_calls st @ map fst pre @ [k]))"
  using assms by (rule close_cases)

text \<open>
  The claim as stated fails on \<open>ex_two\<close>: the \<open>close\<close> of \<open>'db'\<close> raises, and the
  materialized generator provider of \<open>'answer'\<close> is never closed.
\<close>

theorem close_skips_later_providers:
  "PStr ''answer'' \<in> fst ` set (instances ex_two)
   \<and> fst (close ex_two) = Inl (OtherError 1)
   \<and> PStr ''answer'' \<notin> set (close_calls (snd (close ex_two)))
   \<and> map_of (instances (snd (close ex_two))) (PStr ''answer'')
       = Some (GenInst ex_answer False (Suspended PNone) (PInt 42))
   \<and> \<not> closed (snd (close ex_two))"
  by (simp add: run_simps ex_two_def ex_db_def)

theorem close_stops_at_first_failure_witness:
  "\<not> closed ex_two
   \<and> close ex_two = (Inl (OtherError 1), ex_two\<lparr>close_calls := [PStr ''db'']\<rparr>)
   \<and> vals (ex_two\<lparr>close_calls := [PStr ''db'']\<rparr>) = vals ex_two
   \<and> \<not> closed (ex_two\<lparr>close_calls := [PStr ''db'']\<rparr>)"
proof -
  have h1: "\<not> closed ex_two"
    by (simp add: ex_two_def)
  have h2: "close ex_two = (Inl (OtherError 1), ex_two\<lparr>close_calls := [PStr ''db'']\<rparr>)"
    by (simp add: run_simps ex_two_def ex_db_def)
  from close_stops_at_first_failure [OF h1 h2] h1 h2 show ?thesis
    by simp
qed

section \<open>Properties of a closed injector\<close>

text \<open>
  Claim C2, as amended. After a \<open>close\<close> that succeeded the flag is set, that call
  has invoked the \<open>close\<close> of every materialized provider once, in the order of
  \<open>instances\<close>, and a second \<open>close\<close> raises \<open>RuntimeError\<close> and changes nothing.
  \<open>resolve\<close> does not read the flag: an unnamed \<open>resolve\<close> of a base key with a cached
  value still returns that value, and no \<open>resolve\<close> changes the flag or closes a
  provider. The order of \<open>instances\<close> is the order in which the providers were cached,
  since \<open>resolve\<close> only appends keys to it.
\<close>

theorem close_then_closed:
  assumes "close st = (Inr u, st')"
  shows "closed st'
    \<and> close_calls st' = close_calls st @ map fst (instances st)
    \<and> close st' = (Inl RuntimeError, st')
    \<and> (\<forall>n C pnote basenote v.
          parse_note pnote = Inr (basenote, PNone) \<and> vals st basenote = Some v \<longrightarrow>
          resolve (Suc n) C st' pnote = (Inr v, st'))
    \<and> (\<forall>n C pnote. closed (snd (resolve n C st' pnote))
          \<and> close_calls (snd (resolve n C st' pnote)) = close_calls st')
    \<and> (\<forall>n C pnote st0. \<exists>ks.
          map fst (instances (snd (resolve n C st0 pnote))) = map fst (instances st0) @ ks)"
proof -
  from assms have nc: "\<not> closed st"
    by (auto simp: close_def split: if_splits)
  from close_cases [OF nc assms]
  have v: "vals st' = vals st" and c: "closed st'"
    and cc: "close_calls st' = close_calls st @ map fst (instances st)"
    by simp_all
  from c have again: "close st' = (Inl RuntimeError, st')"
    by (simp add: close_def)
  have cached: "\<forall>n C pnote basenote v.
          parse_note pnote = Inr (basenote, PNone) \<and> vals st basenote = Some v \<longrightarrow>
          resolve (Suc n) C st' pnote = (Inr v, st')"
    by (simp add: resolve_with_def v)
  have flag: "\<forall>n C pnote. closed (snd (resolve n C st' pnote))
          \<and> close_calls (snd (resolve n C st' pnote)) = close_calls st'"
    using c by (simp add: resolve_keeps_flag)
  have order: "\<forall>n C pnote st0. \<exists>ks.
          map fst (instances (snd (resolve n C st0 pnote))) = map fst (instances st0) @ ks"
    by (simp add: resolve_appends_instances)
  show ?thesis
    by (intro conjI) (rule c cc again cached flag order)+
qed

text \<open>
  The claim as stated fails on \<open>ex_one\<close>: after its \<open>close\<close>, \<open>resolve('answer')\<close>
  returns the cached \<open>42\<close>, and \<open>resolve('db')\<close> even materializes a new provider.
\<close>

theorem resolve_after_close:
  "close ex_one = (Inr (), snd (close ex_one))
   \<and> closed (snd (close ex_one))
   \<and> resolve (Suc 0) ex_class (snd (close ex_one)) (PStr ''answer'')
       = (Inr (PInt 42), snd (close ex_one))
   \<and> fst (resolve (Suc (Suc 0)) ex_class (snd (close ex_one)) (PStr ''db''))
       = Inr (PStr ''connection'')"
  by (simp add: run_simps ex_one_def ex_answer_def ex_class_def ex_providers_def ex_db_def)

theorem close_then_closed_witness:
  "close ex_one =
     (Inr (), ex_one\<lparr>instances := [(PStr ''answer'', GenInst ex_answer False Finished (PInt 42))],
                     close_calls := [PStr ''answer''], closed := True\<rparr>)
   \<and> close (ex_one\<lparr>instances := [(PStr ''answer'', GenInst ex_answer False Finished (PInt 42))],
                     close_calls := [PStr ''answer''], closed := True\<rparr>)
       = (Inl RuntimeError, ex_one\<lparr>instances := [(PStr ''answer'', GenInst ex_answer False Finished (PInt 42))],
                     close_calls := [PStr ''answer''], closed := True\<rparr>)
   \<and> parse_note (PStr ''answer'') = Inr (PStr ''answer'', PNone)
   \<and> vals ex_one (PStr ''answer'') = Some (PInt 42)
   \<and> resolve (Suc 0) ex_class
         (ex_one\<lparr>instances := [(PStr ''answer'', GenInst ex_answer False Finished (PInt 42))],
                     close_calls := [PStr ''answer''], closed := True\<rparr>) (PStr ''answer'')
       = (Inr (PInt 42), ex_one\<lparr>instances := [(PStr ''answer'', GenInst ex_answer False Finished (PInt 42))],
                     close_calls := [PStr ''answer''], closed := True\<rparr>)"
proof -
  let ?st' = "ex_one\<lparr>instances := [(PStr ''answer'', GenInst ex_answer False Finished (PInt 42))],
                     close_calls := [PStr ''answer''], closed := True\<rparr>"
  have h: "close ex_one = (Inr (), ?st')"
    by (simp add: run_simps ex_one_def ex_answer_def)
  have p: "parse_note (PStr ''answer'') = Inr (PStr ''answer'', PNone)"
    by (simp add: at_end_def)
  have v: "vals ex_one (PStr ''answer'') = Some (PInt 42)"
    by (simp add: ex_one_def)
  from close_then_closed [OF h, THEN conjunct2, THEN conjunct2, THEN conjunct1]
  have again: "close ?st' = (Inl RuntimeError, ?st')" .
  from close_then_closed [OF h, THEN conjunct2, THEN conjunct2, THEN conjunct2, THEN conjunct1] p v
  have cached: "resolve (Suc 0) ex_class ?st' (PStr ''answer'') = (Inr (PInt 42), ?st')"
    by blast
  show ?thesis
    by (intro conjI) (rule h again p v cached)+
qed

section \<open>Properties of unnamed resolution\<close>

lemma attach_note_Inr [simp]: "attach_note note r = Inr v \<longleftrightarrow> r = Inr v"
  by (cases "(note, r)" rule: attach_note.cases) auto

lemma call_provider_unnamed_caches:
  "call_provider res st p note basenote PNone = (Inr v, st') \<Longrightarrow> vals st' basenote = Some v"
  by (auto simp: call_provider_def gp_get_def
           split: provider.splits option.splits prod.splits sum.splits if_splits error.splits)

lemma handle_provider_unnamed_caches:
  "handle_provider_with res st d note basenote PNone = (Inr v, st') \<Longrightarrow>
   vals st' basenote = Some v"
  by (auto simp: handle_provider_with_def Let_def
           dest: call_provider_unnamed_caches
           split: option.splits descriptor.splits sum.splits prod.splits)

lemma resolve_with_unnamed_caches:
  "parse_note note = Inr (basenote, PNone) \<Longrightarrow>
   resolve_with res C st note = (Inr v, st') \<Longrightarrow> vals st' basenote = Some v"
  by (auto simp: resolve_with_def dest: handle_provider_unnamed_caches
           split: option.splits sum.splits)

lemma resolve_unnamed_caches:
  "parse_note note = Inr (basenote, PNone) \<Longrightarrow>
   resolve n C st note = (Inr v, st') \<Longrightarrow> vals st' basenote = Some v"
  by (cases n) (auto dest: resolve_with_unnamed_caches)

lemma resolve_cached:
  "parse_note note = Inr (basenote, PNone) \<Longrightarrow> vals st basenote = Some v \<Longrightarrow>
   resolve (Suc m) C st note = (Inr v, st)"
  by (simp add: resolve_with_def)

text \<open>
  Claim C3. When an unnamed \<open>resolve\<close> of a note returns a value, that value is
  cached under the base key, and every later unnamed \<open>resolve\<close> of the note returns
  it and leaves the injector as it is: no provider is materialized and no generator
  is resumed. The later call gives this result whatever the registry holds, so it
  does not reach any provider.
\<close>

theorem unnamed_resolve_idempotent:
  assumes "parse_note note = Inr (basenote, PNone)"
    and "resolve n C st note = (Inr v, st')"
  shows "vals st' basenote = Some v
    \<and> (\<forall>m C'. resolve (Suc m) C' st' note = (Inr v, st'))"
proof -
  from assms have cached: "vals st' basenote = Some v"
    by (rule resolve_unnamed_caches)
  with assms(1) have "\<forall>m C'. resolve (Suc m) C' st' note = (Inr v, st')"
    using resolve_cached by blast
  with cached show ?thesis by blast
qed

theorem unnamed_resolve_idempotent_witness:
  "parse_note (PStr ''answer'') = Inr (PStr ''answer'', PNone)
   \<and> resolve (Suc (Suc 0)) ex_class new_injector (PStr ''answer'') = (Inr (PInt 42), ex_one)
   \<and> vals ex_one (PStr ''answer'') = Some (PInt 42)
   \<and> resolve (Suc 0) ex_empty_class ex_one (PStr ''answer'') = (Inr (PInt 42), ex_one)"
proof -
  have h1: "parse_note (PStr ''answer'') = Inr (PStr ''answer'', PNone)"
    by (simp add: at_end_def)
  note h2 = ex_one_reached
  from unnamed_resolve_idempotent [OF h1 h2] h1 h2 show ?thesis
    by blast
qed

section \<open>Properties of generator providers\<close>

lemma init_generator_result:
  "init_generator_with res st g = (Inr (p, v), st') \<Longrightarrow>
   \<exists>sn args kwargs s. g_support_name g = Some sn \<and> g_start g args kwargs = GYield v s
      \<and> p = GenInst g sn (Suspended s) v"
  by (auto simp: init_generator_with_def gp_init_def
           split: option.splits if_splits prod.splits sum.splits gresult.splits)

lemma map_of_update_same: "map_of (AList.update k v al) k = Some v"
  by (simp add: update_conv')

lemma handle_provider_init:
  assumes "map_of (instances st) basenote = None"
    and "handle_provider_with res st (DGenFn g) note basenote PNone = (Inr v, st')"
  shows "\<exists>sn args kwargs s. g_support_name g = Some sn \<and> g_start g args kwargs = GYield v s
      \<and> map_of (instances st') basenote = Some (GenInst g sn (Suspended s) v)
      \<and> vals st' basenote = Some v"
proof -
  from assms obtain p st1 where
    init: "init_generator_with res st g = (Inr (p, v), st1)"
    and st': "st' = st1\<lparr>instances := AList.update basenote p (instances st1),
                        vals := (vals st1)(basenote \<mapsto> v)\<rparr>"
    by (auto simp: handle_provider_with_def Let_def split: prod.splits sum.splits)
  from init_generator_result [OF init] st' show ?thesis
    by (auto simp: map_of_update_same)
qed

lemma named_get_unsupported:
  assumes "map_of (instances st) basenote = Some (GenInst g False gs iv)"
    and "name \<noteq> PNone"
  shows "handle_provider_with res st d note basenote name = (Inl TypeError, st)"
proof -
  from assms(1) have "AList.update basenote (GenInst g False gs iv) (instances st) = instances st"
    by (rule update_triv)
  with assms show ?thesis
    by (simp add: handle_provider_with_def call_provider_def gp_get_def)
qed

text \<open>
  Claim C6. A generator function registered without name support, on a base key that
  the injector has not materialized: when the unnamed \<open>resolve\<close> returns, its value
  is the one the generator yielded in \<open>init\<close> and the \<open>GeneratorProvider\<close> is stored
  suspended at that yield; a second unnamed \<open>resolve\<close> returns the value again and
  changes nothing, so \<open>init\<close> does not run again; and a named \<open>resolve\<close> of the key
  raises the \<open>TypeError\<close> of \<open>GeneratorProvider.get\<close>.
\<close>

theorem generator_without_name_support:
  assumes "lookup (registry C) (mro C) basenote = Inr (DGenFn g)"
    and "g_support_name g = Some False"
    and "parse_note note = Inr (basenote, PNone)"
    and "parse_note named = Inr (basenote, name)"
    and "name \<noteq> PNone"
    and "vals st basenote = None"
    and "map_of (instances st) basenote = None"
    and "resolve n C st note = (Inr v, st')"
  shows "(\<exists>args kwargs s. g_start g args kwargs = GYield v s
            \<and> map_of (instances st') basenote = Some (GenInst g False (Suspended s) v))
    \<and> (\<forall>m C'. resolve (Suc m) C' st' note = (Inr v, st'))
    \<and> (\<forall>m. resolve (Suc m) C st' named = (Inl TypeError, st'))"
proof -
  from assms(8) obtain k where n: "n = Suc k"
    by (cases n) auto
  from assms(1,3,6,8) n
  have hp: "handle_provider_with (resolve k C) st (DGenFn g) note basenote PNone = (Inr v, st')"
    by (simp add: resolve_with_def)
  from handle_provider_init [OF assms(7) hp] assms(2)
  obtain args kwargs s where init: "g_start g args kwargs = GYield v s"
    and inst: "map_of (instances st') basenote = Some (GenInst g False (Suspended s) v)"
    and cached: "vals st' basenote = Some v"
    by auto
  from assms(3) cached have again: "\<forall>m C'. resolve (Suc m) C' st' note = (Inr v, st')"
    using resolve_cached by blast
  have "\<forall>m. resolve (Suc m) C st' named = (Inl TypeError, st')"
    using assms(1,4,5) named_get_unsupported [OF inst assms(5)]
    by (simp add: resolve_with_def)
  with init inst again show ?thesis by blast
qed

theorem generator_without_name_support_witness:
  "lookup (registry ex_class) (mro ex_class) (PStr ''answer'') = Inr (DGenFn ex_answer)
   \<and> g_support_name ex_answer = Some False
   \<and> parse_note (PStr ''answer'') = Inr (PStr ''answer'', PNone)
   \<and> parse_note (PStr ''answer:name'') = Inr (PStr ''answer'', PStr ''name'')
   \<and> PStr ''name'' \<noteq> PNone
   \<and> vals new_injector (PStr ''answer'') = None
   \<and> map_of (instances new_injector) (PStr ''answer'') = None
   \<and> resolve (Suc (Suc 0)) ex_class new_injector (PStr ''answer'') = (Inr (PInt 42), ex_one)
   \<and> resolve (Suc 0) ex_class ex_one (PStr ''answer'') = (Inr (PInt 42), ex_one)
   \<and> resolve (Suc 0) ex_class ex_one (PStr ''answer:name'') = (Inl TypeError, ex_one)"
proof -
  have h1: "lookup (registry ex_class) (mro ex_class) (PStr ''answer'') = Inr (DGenFn ex_answer)"
    by (simp add: ex_class_def ex_providers_def)
  have h2: "g_support_name ex_answer = Some False"
    by (simp add: ex_answer_def)
  have h3: "parse_note (PStr ''answer'') = Inr (PStr ''answer'', PNone)"
    by (simp add: at_end_def)
  have h4: "parse_note (PStr ''answer:name'') = Inr (PStr ''answer'', PStr ''name'')"
    by (simp add: at_end_def)
  have h5: "PStr ''name'' \<noteq> PNone"
    by simp
  have h6: "vals new_injector (PStr ''answer'') = None"
    by (simp add: new_injector_def)
  have h7: "map_of (instances new_injector) (PStr ''answer'') = None"
    by (simp add: new_injector_def)
  note h8 = ex_one_reached
  from generator_without_name_support [OF h1 h2 h3 h4 h5 h6 h7 h8] h1 h2 h3 h4 h5 h6 h7 h8
  show ?thesis
    by blast
qed

section \<open>Properties of \<open>fulfill\<close>\<close>

lemma resolve_all_append_error:
  "resolve_all res st pre = (Inr vs, st1) \<Longrightarrow> res st1 note = (Inl e, st2) \<Longrightarrow>
   resolve_all res st (pre @ note # post) = (Inl e, st2)"
  by (induction pre arbitrary: st vs) (auto split: prod.splits sum.splits)

lemma fulfill_keywords_append:
  "fulfill_keywords res st pre acc = (Inr kw1, st1) \<Longrightarrow>
   fulfill_keywords res st (pre @ rest) acc = fulfill_keywords res st1 rest kw1"
proof (induction pre arbitrary: st acc)
  case Nil
  then show ?case by simp
next
  case (Cons a pre)
  obtain arg k where a: "a = (arg, k)"
    by (cases a)
  obtain r s where r: "res st k = (r, s)"
    by (cases "res st k")
  show ?case
  proof (cases r)
    case (Inr v)
    with Cons a r show ?thesis by simp
  next
    case (Inl e)
    with Cons a r show ?thesis by (cases e) simp_all
  qed
qed

lemma fulfill_keywords_unset:
  "res st note = (Inl (UnsetError x), st1) \<Longrightarrow>
   fulfill_keywords res st ((arg, note) # rest) acc = fulfill_keywords res st1 rest acc"
  by simp

text \<open>
  From \<open>resolve\<close> to the call of the provider. A \<open>resolve\<close> that passes the cache and
  finds a descriptor comes to the second half of \<open>handle_provider\<close> with a provider in
  hand: the materialized one, the registered object itself, the instance of the
  registered class that it has just stored, or, for a named note, the
  \<open>GeneratorProvider\<close> that it has just initialized and stored.
\<close>

lemma resolve_reaches_call_provider:
  assumes "parse_note k = Inr (basenote, name)"
    and "name = PNone \<longrightarrow> vals st basenote = None"
    and "lookup (registry C) (mro C) basenote = Inr d"
    and "(map_of (instances st) basenote = Some provider \<and> sg = st)
       \<or> (map_of (instances st) basenote = None \<and> d = DObj ob \<and> provider = Inst ob \<and> sg = st)
       \<or> (map_of (instances st) basenote = None \<and> d = DClass (Inr ob) \<and> provider = Inst ob
            \<and> sg = st\<lparr>instances := AList.update basenote (Inst ob) (instances st)\<rparr>)
       \<or> (map_of (instances st) basenote = None \<and> d = DGenFn g \<and> name \<noteq> PNone
            \<and> init_generator_with (resolve n C) st g = (Inr (provider, iv), sh)
            \<and> sg = sh\<lparr>instances := AList.update basenote provider (instances sh),
                       vals := (vals sh)(basenote \<mapsto> iv)\<rparr>)"
  shows "resolve (Suc n) C st k = call_provider (resolve n C) sg provider k basenote name"
proof -
  from assms(1,2,3)
  have rw: "resolve (Suc n) C st k = handle_provider_with (resolve n C) st d k basenote name"
    by (auto simp: resolve_with_def)
  from assms(4)
  have "handle_provider_with (resolve n C) st d k basenote name
      = call_provider (resolve n C) sg provider k basenote name"
    by (elim disjE) (auto simp: handle_provider_with_def Let_def)
  with rw show ?thesis by simp
qed

text \<open>
  The \<open>try\<close> of \<open>handle_provider\<close>: an \<open>UnsetError\<close> raised by the call of the
  provider, be it the call of a function, of the \<open>get\<close> of an object or of
  \<open>GeneratorProvider.get\<close>, materialized before or not, leaves with the note.
\<close>

lemma call_provider_object_unset:
  assumes "(case ob_get ob of Some get \<Rightarrow> Some get | None \<Rightarrow> ob_call ob) = Some fn"
    and "partial_if_annotated res st fn = (Inr call, st1)"
    and "call [] (if name = PNone then [] else [(''name'', name)]) = Inl (UnsetError y)"
  shows "call_provider res st (Inst ob) k basenote name = (Inl (UnsetError k), st1)"
  using assms by (auto simp: call_provider_def split: option.splits)

lemma call_provider_generator_unset:
  assumes "name \<noteq> PNone"
    and "gp_get g sn gs iv name = (Inl (UnsetError z), provider')"
  shows "call_provider res st (GenInst g sn gs iv) k basenote name
     = (Inl (UnsetError k), st\<lparr>instances := AList.update basenote provider' (instances st)\<rparr>)"
  using assms by (simp add: call_provider_def)

text \<open>
  Claim C7, as amended. \<open>fulfill\<close> resolves the positional notes from left to right
  and the first one that fails, with \<open>UnsetError\<close> or anything else, ends
  \<open>fulfill\<close> with that error as \<open>resolve\<close> raised it, before any keyword note is
  resolved. A keyword note whose \<open>resolve\<close> raises \<open>UnsetError\<close> is left out of the
  keyword arguments and the loop goes on; when it is the last one, \<open>fulfill\<close>
  returns. The \<open>UnsetError\<close> carries the note given to \<open>resolve\<close> when it was raised by
  the call of the provider, which is the one place where \<open>handle_provider\<close> writes
  the note into it: \<open>resolve\<close> is the call of the provider in hand, and that call
  turns every \<open>UnsetError\<close> of a function, of a \<open>get\<close> or of \<open>GeneratorProvider.get\<close>
  into one with the note.
\<close>

theorem fulfill_unset_policy:
  "(resolve_all (resolve n C) st pre = (Inr vs, sa) \<and> resolve n C sa pnote = (Inl e, sb) \<longrightarrow>
      fulfill n C st (pre @ pnote # post) keyword_notes = (Inl e, sb))
   \<and> (resolve_all (resolve n C) st' pnotes = (Inr args, sc)
        \<and> fulfill_keywords (resolve n C) sc kpre [] = (Inr kwargs, sd)
        \<and> resolve n C sd knote = (Inl (UnsetError x), se) \<longrightarrow>
      fulfill n C st' pnotes (kpre @ [(arg, knote)]) = (Inr (args, kwargs), se)
      \<and> fulfill n C st' pnotes (kpre @ (arg, knote) # kpost) =
          (case fulfill_keywords (resolve n C) se kpost kwargs of
             (Inl e', s) \<Rightarrow> (Inl e', s)
           | (Inr kwargs', s) \<Rightarrow> (Inr (args, kwargs'), s)))
   \<and> (parse_note fnote = Inr (basenote, name)
        \<and> (name = PNone \<longrightarrow> vals sf basenote = None)
        \<and> lookup (registry C) (mro C) basenote = Inr d
        \<and> ((map_of (instances sf) basenote = Some provider \<and> sg = sf)
           \<or> (map_of (instances sf) basenote = None \<and> d = DObj ob \<and> provider = Inst ob \<and> sg = sf)
           \<or> (map_of (instances sf) basenote = None \<and> d = DClass (Inr ob) \<and> provider = Inst ob
                \<and> sg = sf\<lparr>instances := AList.update basenote (Inst ob) (instances sf)\<rparr>)
           \<or> (map_of (instances sf) basenote = None \<and> d = DGenFn g \<and> name \<noteq> PNone
                \<and> init_generator_with (resolve n C) sf g = (Inr (provider, iv), sh)
                \<and> sg = sh\<lparr>instances := AList.update basenote provider (instances sh),
                           vals := (vals sh)(basenote \<mapsto> iv)\<rparr>)) \<longrightarrow>
      resolve (Suc n) C sf fnote = call_provider (resolve n C) sg provider fnote basenote name)
   \<and> ((case ob_get obj of Some get \<Rightarrow> Some get | None \<Rightarrow> ob_call obj) = Some fn
        \<and> partial_if_annotated res si fn = (Inr call, sj)
        \<and> call [] (if oname = PNone then [] else [(''name'', oname)]) = Inl (UnsetError y) \<longrightarrow>
      call_provider res si (Inst obj) onote obase oname = (Inl (UnsetError onote), sj))
   \<and> (gname \<noteq> PNone \<and> gp_get gen sn gs giv gname = (Inl (UnsetError z), provider') \<longrightarrow>
      call_provider res' sk (GenInst gen sn gs giv) gnote gbase gname
        = (Inl (UnsetError gnote), sk\<lparr>instances := AList.update gbase provider' (instances sk)\<rparr>))"
proof (intro conjI impI)
  assume "resolve_all (resolve n C) st pre = (Inr vs, sa) \<and> resolve n C sa pnote = (Inl e, sb)"
  then show "fulfill n C st (pre @ pnote # post) keyword_notes = (Inl e, sb)"
    by (simp add: fulfill_def fulfill_with_def resolve_all_append_error)
next
  assume h: "resolve_all (resolve n C) st' pnotes = (Inr args, sc)
        \<and> fulfill_keywords (resolve n C) sc kpre [] = (Inr kwargs, sd)
        \<and> resolve n C sd knote = (Inl (UnsetError x), se)"
  then have skip: "\<And>rest. fulfill_keywords (resolve n C) sc (kpre @ (arg, knote) # rest) []
      = fulfill_keywords (resolve n C) se rest kwargs"
    by (simp add: fulfill_keywords_append)
  from h skip [of "[]"] show "fulfill n C st' pnotes (kpre @ [(arg, knote)]) = (Inr (args, kwargs), se)"
    by (simp add: fulfill_def fulfill_with_def)
  from h skip [of kpost] show "fulfill n C st' pnotes (kpre @ (arg, knote) # kpost) =
          (case fulfill_keywords (resolve n C) se kpost kwargs of
             (Inl e', s) \<Rightarrow> (Inl e', s)
           | (Inr kwargs', s) \<Rightarrow> (Inr (args, kwargs'), s))"
    by (simp add: fulfill_def fulfill_with_def)
next
  assume h: "parse_note fnote = Inr (basenote, name)
        \<and> (name = PNone \<longrightarrow> vals sf basenote = None)
        \<and> lookup (registry C) (mro C) basenote = Inr d
        \<and> ((map_of (instances sf) basenote = Some provider \<and> sg = sf)
           \<or> (map_of (instances sf) basenote = None \<and> d = DObj ob \<and> provider = Inst ob \<and> sg = sf)
           \<or> (map_of (instances sf) basenote = None \<and> d = DClass (Inr ob) \<and> provider = Inst ob
                \<and> sg = sf\<lparr>instances := AList.update basenote (Inst ob) (instances sf)\<rparr>)
           \<or> (map_of (instances sf) basenote = None \<and> d = DGenFn g \<and> name \<noteq> PNone
                \<and> init_generator_with (resolve n C) sf g = (Inr (provider, iv), sh)
                \<and> sg = sh\<lparr>instances := AList.update basenote provider (instances sh),
                           vals := (vals sh)(basenote \<mapsto> iv)\<rparr>))"
  from h have 1: "parse_note fnote = Inr (basenote, name)" by blast
  from h have 2: "name = PNone \<longrightarrow> vals sf basenote = None" by blast
  from h have 3: "lookup (registry C) (mro C) basenote = Inr d" by blast
  from h have 4: "(map_of (instances sf) basenote = Some provider \<and> sg = sf)
           \<or> (map_of (instances sf) basenote = None \<and> d = DObj ob \<and> provider = Inst ob \<and> sg = sf)
           \<or> (map_of (instances sf) basenote = None \<and> d = DClass (Inr ob) \<and> provider = Inst ob
                \<and> sg = sf\<lparr>instances := AList.update basenote (Inst ob) (instances sf)\<rparr>)
           \<or> (map_of (instances sf) basenote = None \<and> d = DGenFn g \<and> name \<noteq> PNone
                \<and> init_generator_with (resolve n C) sf g = (Inr (provider, iv), sh)
                \<and> sg = sh\<lparr>instances := AList.update basenote provider (instances sh),
                           vals := (vals sh)(basenote \<mapsto> iv)\<rparr>)" by blast
  show "resolve (Suc n) C sf fnote = call_provider (resolve n C) sg provider fnote basenote name"
    by (rule resolve_reaches_call_provider [OF 1 2 3 4])
next
  assume "(case ob_get obj of Some get \<Rightarrow> Some get | None \<Rightarrow> ob_call obj) = Some fn
        \<and> partial_if_annotated res si fn = (Inr call, sj)
        \<and> call [] (if oname = PNone then [] else [(''name'', oname)]) = Inl (UnsetError y)"
  then show "call_provider res si (Inst obj) onote obase oname = (Inl (UnsetError onote), sj)"
    using call_provider_object_unset by blast
next
  assume "gname \<noteq> PNone \<and> gp_get gen sn gs giv gname = (Inl (UnsetError z), provider')"
  then show "call_provider res' sk (GenInst gen sn gs giv) gnote gbase gname
        = (Inl (UnsetError gnote), sk\<lparr>instances := AList.update gbase provider' (instances sk)\<rparr>)"
    using call_provider_generator_unset by blast
qed

text \<open>
  The claim as stated fails for an \<open>UnsetError\<close> raised while the provider is
  materialized: \<open>init_generator\<close> is called outside the \<open>try\<close> of \<open>handle_provider\<close>,
  so the error of the positional note \<open>'maybe'\<close> reaches the caller without a note.
\<close>

theorem unset_in_init_has_no_note:
  "fulfill (Suc 0) ex_class new_injector [PStr ''maybe''] [] = (Inl (UnsetError PNone), new_injector)
   \<and> fst (fulfill (Suc 0) ex_class new_injector [PStr ''maybe''] [])
        \<noteq> Inl (UnsetError (PStr ''maybe''))"
  by (simp add: fulfill_def run_simps ex_class_def ex_providers_def ex_maybe_def)

text \<open>
  The two annotated functions of the demonstration, \<open>positional_error\<close>, annotated
  with \<open>'error'\<close>, and \<open>keyword_error\<close>, annotated with \<open>'answer'\<close> and
  \<open>unused='error'\<close>; then the class \<open>'cfg'\<close>, not yet and already instantiated, and
  the materialized generator \<open>'mood'\<close> under a name.
\<close>

theorem fulfill_unset_policy_witness:
  "lookup (registry ex_class) (mro ex_class) (PStr ''error'') = Inr (DObj ex_error)
   \<and> map_of (instances new_injector) (PStr ''error'') = None
   \<and> resolve (Suc 0) ex_class new_injector (PStr ''error'')
        = (Inl (UnsetError (PStr ''error'')), new_injector)
   \<and> resolve_all (resolve (Suc 0) ex_class) new_injector [] = (Inr [], new_injector)
   \<and> fulfill (Suc 0) ex_class new_injector [PStr ''error''] []
        = (Inl (UnsetError (PStr ''error'')), new_injector)
   \<and> resolve_all (resolve (Suc 0) ex_class) new_injector [PStr ''answer''] = (Inr [PInt 42], ex_one)
   \<and> fulfill_keywords (resolve (Suc 0) ex_class) ex_one [] [] = (Inr [], ex_one)
   \<and> resolve (Suc 0) ex_class ex_one (PStr ''error'')
        = (Inl (UnsetError (PStr ''error'')), ex_one)
   \<and> fulfill (Suc 0) ex_class new_injector [PStr ''answer''] [(''unused'', PStr ''error'')]
        = (Inr ([PInt 42], []), ex_one)
   \<and> lookup (registry ex_class) (mro ex_class) (PStr ''cfg'') = Inr (DClass (Inr ex_cfg))
   \<and> map_of (instances new_injector) (PStr ''cfg'') = None
   \<and> resolve (Suc 0) ex_class new_injector (PStr ''cfg'')
        = (Inl (UnsetError (PStr ''cfg'')), ex_cfg_made)
   \<and> map_of (instances ex_cfg_made) (PStr ''cfg'') = Some (Inst ex_cfg)
   \<and> resolve (Suc 0) ex_class ex_cfg_made (PStr ''cfg'')
        = (Inl (UnsetError (PStr ''cfg'')), ex_cfg_made)
   \<and> map_of (instances ex_mood_made) (PStr ''mood'')
        = Some (GenInst ex_mood True (Suspended PNone) (PStr ''calm''))
   \<and> gp_get ex_mood True (Suspended PNone) (PStr ''calm'') (PStr ''now'')
        = (Inl (UnsetError PNone), GenInst ex_mood True Finished (PStr ''calm''))
   \<and> resolve (Suc 0) ex_class ex_mood_made (PStr ''mood:now'')
        = (Inl (UnsetError (PStr ''mood:now'')),
           ex_mood_made\<lparr>instances := [(PStr ''mood'', GenInst ex_mood True Finished (PStr ''calm''))]\<rparr>)"
proof -
  let ?res = "resolve 0 ex_class"
  define raising where "raising = PyFun (Signature [] [] [])
      (\<lambda>a kw. if a = [] \<and> kw = [] then Inl (UnsetError PNone) else Inl TypeError)"
  define getter where "getter = PyFun (Signature [] [] [])
      (\<lambda>a (kw :: kwargs). if a = [] then Inl (UnsetError PNone) else Inl TypeError)"
  note link = fulfill_unset_policy [THEN conjunct2, THEN conjunct2, THEN conjunct1, THEN mp]
  note obj = fulfill_unset_policy [THEN conjunct2, THEN conjunct2, THEN conjunct2, THEN conjunct1,
      THEN mp]
  note gen = fulfill_unset_policy [THEN conjunct2, THEN conjunct2, THEN conjunct2, THEN conjunct2,
      THEN mp]

  \<comment> \<open>the factory \<open>'error'\<close>, a registered object that is never stored\<close>
  have e1: "lookup (registry ex_class) (mro ex_class) (PStr ''error'') = Inr (DObj ex_error)"
    by (simp add: ex_class_def ex_providers_def)
  have e2: "map_of (instances new_injector) (PStr ''error'') = None"
    by (simp add: new_injector_def)
  have e3: "(case ob_get ex_error of Some get \<Rightarrow> Some get | None \<Rightarrow> ob_call ex_error) = Some raising
      \<and> partial_if_annotated ?res new_injector raising = (Inr (fn_call raising), new_injector)
      \<and> fn_call raising [] (if PNone = PNone then [] else [(''name'', PNone)]) = Inl (UnsetError PNone)"
    by (simp add: ex_error_def raising_def partial_if_annotated_def has_annotations_def)
  have e4: "call_provider ?res new_injector (Inst ex_error) (PStr ''error'') (PStr ''error'') PNone
      = (Inl (UnsetError (PStr ''error'')), new_injector)"
    by (rule obj [OF e3])
  have e5: "parse_note (PStr ''error'') = Inr (PStr ''error'', PNone)
        \<and> (PNone = PNone \<longrightarrow> vals new_injector (PStr ''error'') = None)
        \<and> lookup (registry ex_class) (mro ex_class) (PStr ''error'') = Inr (DObj ex_error)
        \<and> ((map_of (instances new_injector) (PStr ''error'') = Some (Inst ex_error)
              \<and> new_injector = new_injector)
           \<or> (map_of (instances new_injector) (PStr ''error'') = None \<and> DObj ex_error = DObj ex_error
                \<and> Inst ex_error = Inst ex_error \<and> new_injector = new_injector)
           \<or> (map_of (instances new_injector) (PStr ''error'') = None
                \<and> DObj ex_error = DClass (Inr ex_error) \<and> Inst ex_error = Inst ex_error
                \<and> new_injector = new_injector\<lparr>instances :=
                     AList.update (PStr ''error'') (Inst ex_error) (instances new_injector)\<rparr>)
           \<or> (map_of (instances new_injector) (PStr ''error'') = None
                \<and> DObj ex_error = DGenFn ex_answer \<and> PNone \<noteq> PNone
                \<and> init_generator_with ?res new_injector ex_answer
                     = (Inr (Inst ex_error, PNone), new_injector)
                \<and> new_injector = new_injector\<lparr>instances :=
                     AList.update (PStr ''error'') (Inst ex_error) (instances new_injector),
                     vals := (vals new_injector)(PStr ''error'' \<mapsto> PNone)\<rparr>))"
    using e1 e2 by (simp add: at_end_def new_injector_def)
  from link [OF e5] e4
  have e6: "resolve (Suc 0) ex_class new_injector (PStr ''error'')
        = (Inl (UnsetError (PStr ''error'')), new_injector)"
    by simp

  \<comment> \<open>\<open>positional_error\<close> and \<open>keyword_error\<close>\<close>
  have p1: "resolve_all (resolve (Suc 0) ex_class) new_injector [] = (Inr [], new_injector)"
    by simp
  have k1: "resolve_all (resolve (Suc 0) ex_class) new_injector [PStr ''answer''] = (Inr [PInt 42], ex_one)"
    by (simp add: run_simps ex_class_def ex_providers_def ex_answer_def ex_one_def)
  have k2: "fulfill_keywords (resolve (Suc 0) ex_class) ex_one [] [] = (Inr [], ex_one)"
    by simp
  have k3: "resolve (Suc 0) ex_class ex_one (PStr ''error'')
        = (Inl (UnsetError (PStr ''error'')), ex_one)"
    by (simp add: run_simps ex_class_def ex_providers_def ex_error_def ex_one_def)
  note t = fulfill_unset_policy [where n = "Suc 0" and C = ex_class
      and st = new_injector and pre = "[]" and vs = "[]" and sa = new_injector
      and pnote = "PStr ''error''" and e = "UnsetError (PStr ''error'')" and sb = new_injector
      and post = "[]" and keyword_notes = "[]"
      and st' = new_injector and pnotes = "[PStr ''answer'']" and args = "[PInt 42]"
      and sc = ex_one and kpre = "[]" and kwargs = "[]" and sd = ex_one
      and knote = "PStr ''error''" and x = "PStr ''error''" and se = ex_one
      and arg = "''unused''" and kpost = "[]"]
  from t [THEN conjunct1] p1 e6
  have c1: "fulfill (Suc 0) ex_class new_injector ([] @ PStr ''error'' # []) []
        = (Inl (UnsetError (PStr ''error'')), new_injector)"
    by blast
  then have c1': "fulfill (Suc 0) ex_class new_injector [PStr ''error''] []
        = (Inl (UnsetError (PStr ''error'')), new_injector)"
    by simp
  from t [THEN conjunct2, THEN conjunct1] k1 k2 k3
  have c2: "fulfill (Suc 0) ex_class new_injector [PStr ''answer''] ([] @ [(''unused'', PStr ''error'')])
        = (Inr ([PInt 42], []), ex_one)"
    by blast
  then have c2': "fulfill (Suc 0) ex_class new_injector [PStr ''answer''] [(''unused'', PStr ''error'')]
        = (Inr ([PInt 42], []), ex_one)"
    by simp

  \<comment> \<open>the class \<open>'cfg'\<close>: instantiated by this \<open>resolve\<close>, then already materialized\<close>
  have f1: "lookup (registry ex_class) (mro ex_class) (PStr ''cfg'') = Inr (DClass (Inr ex_cfg))"
    by (simp add: ex_class_def ex_providers_def)
  have f2: "map_of (instances new_injector) (PStr ''cfg'') = None"
    by (simp add: new_injector_def)
  have made: "new_injector\<lparr>instances := AList.update (PStr ''cfg'') (Inst ex_cfg) (instances new_injector)\<rparr>
      = ex_cfg_made"
    by (simp add: new_injector_def ex_cfg_made_def)
  have f3: "\<And>s. (case ob_get ex_cfg of Some get \<Rightarrow> Some get | None \<Rightarrow> ob_call ex_cfg) = Some getter
      \<and> partial_if_annotated ?res s getter = (Inr (fn_call getter), s)
      \<and> fn_call getter [] (if PNone = PNone then [] else [(''name'', PNone)]) = Inl (UnsetError PNone)"
    by (simp add: ex_cfg_def getter_def partial_if_annotated_def has_annotations_def)
  have f4: "\<And>s. call_provider ?res s (Inst ex_cfg) (PStr ''cfg'') (PStr ''cfg'') PNone
      = (Inl (UnsetError (PStr ''cfg'')), s)"
    by (rule obj [OF f3])
  have f5: "parse_note (PStr ''cfg'') = Inr (PStr ''cfg'', PNone)
        \<and> (PNone = PNone \<longrightarrow> vals new_injector (PStr ''cfg'') = None)
        \<and> lookup (registry ex_class) (mro ex_class) (PStr ''cfg'') = Inr (DClass (Inr ex_cfg))
        \<and> ((map_of (instances new_injector) (PStr ''cfg'') = Some (Inst ex_cfg)
              \<and> ex_cfg_made = new_injector)
           \<or> (map_of (instances new_injector) (PStr ''cfg'') = None
                \<and> DClass (Inr ex_cfg) = DObj ex_cfg
                \<and> Inst ex_cfg = Inst ex_cfg \<and> ex_cfg_made = new_injector)
           \<or> (map_of (instances new_injector) (PStr ''cfg'') = None
                \<and> DClass (Inr ex_cfg) = DClass (Inr ex_cfg) \<and> Inst ex_cfg = Inst ex_cfg
                \<and> ex_cfg_made = new_injector\<lparr>instances :=
                     AList.update (PStr ''cfg'') (Inst ex_cfg) (instances new_injector)\<rparr>)
           \<or> (map_of (instances new_injector) (PStr ''cfg'') = None
                \<and> DClass (Inr ex_cfg) = DGenFn ex_answer \<and> PNone \<noteq> PNone
                \<and> init_generator_with ?res new_injector ex_answer
                     = (Inr (Inst ex_cfg, PNone), new_injector)
                \<and> ex_cfg_made = new_injector\<lparr>instances :=
                     AList.update (PStr ''cfg'') (Inst ex_cfg) (instances new_injector),
                     vals := (vals new_injector)(PStr ''cfg'' \<mapsto> PNone)\<rparr>))"
    using f1 f2 made by (simp add: at_end_def new_injector_def)
  from link [OF f5] f4 [of ex_cfg_made]
  have f6: "resolve (Suc 0) ex_class new_injector (PStr ''cfg'')
        = (Inl (UnsetError (PStr ''cfg'')), ex_cfg_made)"
    by simp
  have m1: "map_of (instances ex_cfg_made) (PStr ''cfg'') = Some (Inst ex_cfg)"
    by (simp add: ex_cfg_made_def)
  have m2: "parse_note (PStr ''cfg'') = Inr (PStr ''cfg'', PNone)
        \<and> (PNone = PNone \<longrightarrow> vals ex_cfg_made (PStr ''cfg'') = None)
        \<and> lookup (registry ex_class) (mro ex_class) (PStr ''cfg'') = Inr (DClass (Inr ex_cfg))
        \<and> ((map_of (instances ex_cfg_made) (PStr ''cfg'') = Some (Inst ex_cfg)
              \<and> ex_cfg_made = ex_cfg_made)
           \<or> (map_of (instances ex_cfg_made) (PStr ''cfg'') = None
                \<and> DClass (Inr ex_cfg) = DObj ex_cfg
                \<and> Inst ex_cfg = Inst ex_cfg \<and> ex_cfg_made = ex_cfg_made)
           \<or> (map_of (instances ex_cfg_made) (PStr ''cfg'') = None
                \<and> DClass (Inr ex_cfg) = DClass (Inr ex_cfg) \<and> Inst ex_cfg = Inst ex_cfg
                \<and> ex_cfg_made = ex_cfg_made\<lparr>instances :=
                     AList.update (PStr ''cfg'') (Inst ex_cfg) (instances ex_cfg_made)\<rparr>)
           \<or> (map_of (instances ex_cfg_made) (PStr ''cfg'') = None
                \<and> DClass (Inr ex_cfg) = DGenFn ex_answer \<and> PNone \<noteq> PNone
                \<and> init_generator_with ?res ex_cfg_made ex_answer
                     = (Inr (Inst ex_cfg, PNone), ex_cfg_made)
                \<and> ex_cfg_made = ex_cfg_made\<lparr>instances :=
                     AList.update (PStr ''cfg'') (Inst ex_cfg) (instances ex_cfg_made),
                     vals := (vals ex_cfg_made)(PStr ''cfg'' \<mapsto> PNone)\<rparr>))"
    using f1 m1 by (simp add: at_end_def ex_cfg_made_def)
  from link [OF m2] f4 [of ex_cfg_made]
  have m3: "resolve (Suc 0) ex_class ex_cfg_made (PStr ''cfg'')
        = (Inl (UnsetError (PStr ''cfg'')), ex_cfg_made)"
    by simp

  \<comment> \<open>the materialized generator \<open>'mood'\<close>, resolved with a name\<close>
  have g1: "map_of (instances ex_mood_made) (PStr ''mood'')
        = Some (GenInst ex_mood True (Suspended PNone) (PStr ''calm''))"
    by (simp add: ex_mood_made_def)
  have g2: "gp_get ex_mood True (Suspended PNone) (PStr ''calm'') (PStr ''now'')
        = (Inl (UnsetError PNone), GenInst ex_mood True Finished (PStr ''calm''))"
    by (simp add: gp_get_def gen_send_def ex_mood_def)
  then have g3: "PStr ''now'' \<noteq> PNone
      \<and> gp_get ex_mood True (Suspended PNone) (PStr ''calm'') (PStr ''now'')
        = (Inl (UnsetError PNone), GenInst ex_mood True Finished (PStr ''calm''))"
    by simp
  have upd: "ex_mood_made\<lparr>instances := AList.update (PStr ''mood'')
        (GenInst ex_mood True Finished (PStr ''calm'')) (instances ex_mood_made)\<rparr>
      = ex_mood_made\<lparr>instances := [(PStr ''mood'', GenInst ex_mood True Finished (PStr ''calm''))]\<rparr>"
    by (simp add: ex_mood_made_def)
  have g4: "call_provider ?res ex_mood_made (GenInst ex_mood True (Suspended PNone) (PStr ''calm''))
        (PStr ''mood:now'') (PStr ''mood'') (PStr ''now'')
      = (Inl (UnsetError (PStr ''mood:now'')),
         ex_mood_made\<lparr>instances := [(PStr ''mood'', GenInst ex_mood True Finished (PStr ''calm''))]\<rparr>)"
    using gen [OF g3, of ?res ex_mood_made "PStr ''mood:now''" "PStr ''mood''"] upd
    by simp
  have g5: "parse_note (PStr ''mood:now'') = Inr (PStr ''mood'', PStr ''now'')
        \<and> (PStr ''now'' = PNone \<longrightarrow> vals ex_mood_made (PStr ''mood'') = None)
        \<and> lookup (registry ex_class) (mro ex_class) (PStr ''mood'') = Inr (DGenFn ex_mood)
        \<and> ((map_of (instances ex_mood_made) (PStr ''mood'')
                = Some (GenInst ex_mood True (Suspended PNone) (PStr ''calm''))
              \<and> ex_mood_made = ex_mood_made)
           \<or> (map_of (instances ex_mood_made) (PStr ''mood'') = None
                \<and> DGenFn ex_mood = DObj ex_cfg
                \<and> GenInst ex_mood True (Suspended PNone) (PStr ''calm'') = Inst ex_cfg
                \<and> ex_mood_made = ex_mood_made)
           \<or> (map_of (instances ex_mood_made) (PStr ''mood'') = None
                \<and> DGenFn ex_mood = DClass (Inr ex_cfg)
                \<and> GenInst ex_mood True (Suspended PNone) (PStr ''calm'') = Inst ex_cfg
                \<and> ex_mood_made = ex_mood_made\<lparr>instances :=
                     AList.update (PStr ''mood'') (Inst ex_cfg) (instances ex_mood_made)\<rparr>)
           \<or> (map_of (instances ex_mood_made) (PStr ''mood'') = None
                \<and> DGenFn ex_mood = DGenFn ex_mood \<and> PStr ''now'' \<noteq> PNone
                \<and> init_generator_with ?res ex_mood_made ex_mood
                     = (Inr (GenInst ex_mood True (Suspended PNone) (PStr ''calm''), PNone), ex_mood_made)
                \<and> ex_mood_made = ex_mood_made\<lparr>instances :=
                     AList.update (PStr ''mood'')
                       (GenInst ex_mood True (Suspended PNone) (PStr ''calm''))
                       (instances ex_mood_made),
                     vals := (vals ex_mood_made)(PStr ''mood'' \<mapsto> PNone)\<rparr>))"
    using g1 by (simp add: at_end_def ex_class_def ex_providers_def)
  from link [OF g5] g4
  have g6: "resolve (Suc 0) ex_class ex_mood_made (PStr ''mood:now'')
        = (Inl (UnsetError (PStr ''mood:now'')),
           ex_mood_made\<lparr>instances := [(PStr ''mood'', GenInst ex_mood True Finished (PStr ''calm''))]\<rparr>)"
    by simp
  show ?thesis
    by (intro conjI) (rule e1 e2 e6 p1 c1' k1 k2 k3 c2' f1 f2 f6 m1 m3 g1 g2 g6)+
qed

section \<open>Properties of the decoration layer\<close>

lemma decorate_result:
  assumes "parse_note dnote = Inr (basenote, name)"
    and "decorate dreg c dnote fn mode = Inr dreg'"
  shows "dreg' = dreg(c \<mapsto> (case dreg c of None \<Rightarrow> Map.empty | Some r \<Rightarrow> r)
                   ((basenote, name) \<mapsto> class_decorators dreg basenote name c @ [(mode, fn)]))"
proof -
  let ?bad_mode = "mode \<noteq> DECORATE \<and> mode \<noteq> CONFIGURE"
  let ?bad_name = "mode = CONFIGURE \<and> name \<noteq> PNone"
  from assms(2) have ok1: "\<not> ?bad_mode"
    unfolding decorate_def by (cases ?bad_mode) simp_all
  with assms have ok2: "\<not> ?bad_name"
    unfolding decorate_def by (cases ?bad_name) simp_all
  show ?thesis
  proof (cases "dreg c")
    case None
    with assms ok1 ok2 show ?thesis
      unfolding decorate_def class_decorators_def by (simp del: fun_upd_apply)
  next
    case (Some r)
    with assms ok1 ok2 show ?thesis
      unfolding decorate_def class_decorators_def
      by (cases "r (basenote, name)") (simp_all del: fun_upd_apply)
  qed
qed

lemma decorate_parsed:
  assumes "parse_note dnote = Inr (basenote, name)"
    and "decorate dreg c dnote fn mode = Inr dreg'"
  shows "class_decorators dreg' b nm c' =
     (if c' = c \<and> b = basenote \<and> nm = name
      then class_decorators dreg basenote name c @ [(mode, fn)]
      else class_decorators dreg b nm c')"
  unfolding decorate_result [OF assms]
  by (simp add: class_decorators_def split: option.splits)

lemma decorators_iter_Cons:
  "decorators_iter dreg (c # ms) basenote name =
     decorators_iter dreg ms basenote name @ class_decorators dreg basenote name c"
  by (simp add: decorators_iter_def)

lemma decorators_iter_cong:
  "(\<And>c. c \<in> set ms \<Longrightarrow> class_decorators dreg' basenote name c = class_decorators dreg basenote name c)
   \<Longrightarrow> decorators_iter dreg' ms basenote name = decorators_iter dreg ms basenote name"
  by (induction ms) (simp_all add: decorators_iter_def)

text \<open>
  The order in which \<open>decorators_iter\<close> visits the registered entries. With \<open>d1\<close> and
  then \<open>d2\<close> registered on a class \<open>T\<close> and \<open>d3\<close> on its subclass \<open>S\<close> for one key, an
  \<open>S\<close> injector visits what the ancestors of \<open>T\<close> hold, then the entries of \<open>T\<close> in
  registration order with \<open>d1\<close> and \<open>d2\<close> last, then those of \<open>S\<close> with \<open>d3\<close> last; a
  \<open>T\<close> injector does not visit \<open>d3\<close>.
\<close>

lemma decorators_iter_base_class_first:
  assumes "decorate dreg0 T dnote d1 m1 = Inr dreg1"
    and "decorate dreg1 T dnote d2 m2 = Inr dreg2"
    and "decorate dreg2 S dnote d3 m3 = Inr dreg3"
    and "parse_note dnote = Inr (basenote, name)"
    and "S \<noteq> T" and "S \<notin> set ancestors" and "T \<notin> set ancestors"
  shows "decorators_iter dreg3 (S # T # ancestors) basenote name =
           decorators_iter dreg0 ancestors basenote name
           @ (class_decorators dreg0 basenote name T @ [(m1, d1), (m2, d2)])
           @ (class_decorators dreg0 basenote name S @ [(m3, d3)])"
    and "decorators_iter dreg3 (T # ancestors) basenote name =
           decorators_iter dreg0 ancestors basenote name
           @ (class_decorators dreg0 basenote name T @ [(m1, d1), (m2, d2)])"
proof -
  note p = assms(4)
  have at_T: "class_decorators dreg3 basenote name T
      = class_decorators dreg0 basenote name T @ [(m1, d1), (m2, d2)]"
    using assms(5)
    by (simp add: decorate_parsed [OF p assms(3)] decorate_parsed [OF p assms(2)]
          decorate_parsed [OF p assms(1)])
  have at_S: "class_decorators dreg3 basenote name S
      = class_decorators dreg0 basenote name S @ [(m3, d3)]"
    using assms(5)
    by (simp add: decorate_parsed [OF p assms(3)] decorate_parsed [OF p assms(2)]
          decorate_parsed [OF p assms(1)])
  have above: "decorators_iter dreg3 ancestors basenote name
      = decorators_iter dreg0 ancestors basenote name"
  proof (rule decorators_iter_cong)
    fix c assume "c \<in> set ancestors"
    with assms(6,7) have "c \<noteq> S" "c \<noteq> T" by auto
    then show "class_decorators dreg3 basenote name c = class_decorators dreg0 basenote name c"
      by (simp add: decorate_parsed [OF p assms(3)] decorate_parsed [OF p assms(2)]
            decorate_parsed [OF p assms(1)])
  qed
  show "decorators_iter dreg3 (S # T # ancestors) basenote name =
           decorators_iter dreg0 ancestors basenote name
           @ (class_decorators dreg0 basenote name T @ [(m1, d1), (m2, d2)])
           @ (class_decorators dreg0 basenote name S @ [(m3, d3)])"
    by (simp add: decorators_iter_Cons at_T at_S above)
  show "decorators_iter dreg3 (T # ancestors) basenote name =
           decorators_iter dreg0 ancestors basenote name
           @ (class_decorators dreg0 basenote name T @ [(m1, d1), (m2, d2)])"
    by (simp add: decorators_iter_Cons at_T above)
qed

text \<open>
  Without the method the loop raises \<open>AttributeError\<close> at its first entry, whatever the
  entry is, and changes nothing; only a key without entries gets its value back.
\<close>

lemma decorators_loop_no_attribute:
  "decorators_loop res None st entries v =
     (if entries = [] then (Inr v, st) else (Inl AttributeError, st))"
  by (cases entries) auto

text \<open>
  What the loop does on an injector that has the method: the steps are chained, a
  step in decorate mode replaces the value by what it returns, and a step in configure
  mode is called and the value stays.
\<close>

lemma decorators_loop_append:
  "decorators_loop res attr st xs v = (Inr v', st') \<Longrightarrow>
   decorators_loop res attr st (xs @ ys) v = decorators_loop res attr st' ys v'"
proof (induction xs arbitrary: st v)
  case Nil
  then show ?case by simp
next
  case (Cons x xs)
  obtain mode fn where x: "x = (mode, fn)"
    by (cases x)
  show ?case
  proof (cases attr)
    case None
    with Cons.prems x show ?thesis by simp
  next
    case (Some annotated)
    obtain r s where r: "(if annotated fn then partial_with res st fn else (Inr (fn_call fn), st)) = (r, s)"
      by (cases "if annotated fn then partial_with res st fn else (Inr (fn_call fn), st)")
    show ?thesis
    proof (cases r)
      case (Inl e)
      with Cons.prems x Some r show ?thesis by simp
    next
      case (Inr call)
      show ?thesis
      proof (cases "mode = DECORATE \<or> mode = CONFIGURE")
        case False
        with Cons.prems x Some r Inr Cons.IH [of s v] show ?thesis by simp
      next
        case True
        show ?thesis
        proof (cases "call [v] []")
          case (Inl e)
          with Cons.prems x Some r Inr True show ?thesis by auto
        next
          case w: (Inr w)
          show ?thesis
          proof (cases "mode = DECORATE")
            case True
            with Cons.prems x Some r Inr w Cons.IH [of s w] show ?thesis by simp
          next
            case False
            with True have "mode = CONFIGURE" by simp
            with Cons.prems x Some r Inr w Cons.IH [of s v] show ?thesis by simp
          qed
        qed
      qed
    qed
  qed
qed

lemma decorators_loop_step:
  assumes "(if annotated fn then partial_with res st fn else (Inr (fn_call fn), st)) = (Inr call, st1)"
    and "call [v] [] = Inr w"
  shows "decorators_loop res (Some annotated) st ((DECORATE, fn) # rest) v
           = decorators_loop res (Some annotated) st1 rest w"
    and "decorators_loop res (Some annotated) st ((CONFIGURE, fn) # rest) v
           = decorators_loop res (Some annotated) st1 rest v"
  using assms by simp_all

lemma ex_decorate_1:
  "decorate (\<lambda>c. None) ''TestInjector'' (PStr ''it'') ex_reverse_it DECORATE = Inr ex_decorators1"
  by (simp add: decorate_def at_end_def ex_decorators1_def)

lemma ex_decorate_2:
  "decorate ex_decorators1 ''TestInjector'' (PStr ''it'') ex_ignore_it CONFIGURE = Inr ex_decorators2"
  by (simp add: decorate_def at_end_def ex_decorators1_def ex_decorators2_def)

lemma ex_decorate_3:
  "decorate ex_decorators2 ''SubTestInjector'' (PStr ''it'') ex_double_it DECORATE = Inr ex_decorators"
  by (simp add: decorate_def at_end_def ex_decorators2_def ex_decorators_def)

lemma ex_decorators_iter:
  "decorators_iter ex_decorators (mro ex_sub_class) (PStr ''it'') PNone
     = [(DECORATE, ex_reverse_it), (CONFIGURE, ex_ignore_it), (DECORATE, ex_double_it)]"
  by (simp add: decorators_iter_def class_decorators_def ex_decorators_def ex_sub_class_def)

text \<open>
  On an injector whose class defines \<open>has_annotations\<close> as the function of the module
  is defined, the decorations of the tests give \<open>'cbacba'\<close>, as the tests expect.
\<close>

lemma ex_decorators_with_method:
  "decorators_apply 0 ex_sub_class (Some (\<lambda>fn. has_annotations (fn_sig fn))) ex_decorators
     new_injector (PStr ''it'') PNone (PStr ''abc'')
     = (Inr (PStr ''cbacba''), new_injector)"
  by (simp add: decorators_apply_def ex_decorators_iter has_annotations_def
        ex_reverse_it_def ex_ignore_it_def ex_double_it_def)

text \<open>
  Claim C5. Decorations are to be applied base class first and in registration order,
  each on the result of the one before, a decorate step replacing the value and a
  configure step leaving it. The registries and \<open>decorators_iter\<close> do hold the entries
  in that order, but the code does not apply them. With \<open>reverse_it\<close> and \<open>ignore_it\<close>
  registered on \<open>TestInjector\<close> and \<open>double_it\<close> on its subclass, \<open>decorators_apply\<close> on
  \<open>'abc'\<close> raises \<open>AttributeError\<close> at the first entry, where \<open>decorators_iter\<close> calls
  \<open>self.has_annotations\<close>, a method that no class of the two modules defines; and
  \<open>resolve\<close>, which calls \<open>handle_provider\<close> and never \<open>_handle_provider\<close>, returns the
  value \<open>'abc'\<close> of the provider as it is. The tests of the module expect \<open>'cbacba'\<close>.
\<close>

theorem decorators_apply_attribute_error:
  "decorators_iter ex_decorators (mro ex_sub_class) (PStr ''it'') PNone
     = [(DECORATE, ex_reverse_it), (CONFIGURE, ex_ignore_it), (DECORATE, ex_double_it)]
   \<and> decorators_apply 0 ex_sub_class injector_has_annotations ex_decorators
         new_injector (PStr ''it'') PNone (PStr ''abc'')
       = (Inl AttributeError, new_injector)
   \<and> fst (resolve (Suc 0) ex_sub_class new_injector (PStr ''it'')) = Inr (PStr ''abc'')"
proof -
  have entries: "decorators_iter ex_decorators (mro ex_sub_class) (PStr ''it'') PNone
     = [(DECORATE, ex_reverse_it), (CONFIGURE, ex_ignore_it), (DECORATE, ex_double_it)]"
    by (rule ex_decorators_iter)
  have applied: "decorators_apply 0 ex_sub_class injector_has_annotations ex_decorators
         new_injector (PStr ''it'') PNone (PStr ''abc'')
       = (Inl AttributeError, new_injector)"
    by (simp add: decorators_apply_def entries injector_has_annotations_def)
  have resolved: "fst (resolve (Suc 0) ex_sub_class new_injector (PStr ''it'')) = Inr (PStr ''abc'')"
    by (simp add: run_simps ex_sub_class_def ex_function_def)
  show ?thesis
    by (intro conjI) (rule entries applied resolved)+
qed

section \<open>Properties of named resolution\<close>

lemma resolve_with_keeps_cached:
  assumes res: "\<And>s k. keeps_cached C b v s \<Longrightarrow> keeps_cached C b v (snd (res s k))"
    and st: "keeps_cached C b v st"
  shows "keeps_cached C b v (snd (resolve_with res C st k))"
proof (cases "parse_note k")
  case (Inl e)
  with st show ?thesis by (simp add: resolve_with_def)
next
  case (Inr bn)
  obtain basenote name where bn: "bn = (basenote, name)"
    by (cases bn)
  show ?thesis
  proof (cases "name = PNone \<and> vals st basenote \<noteq> None")
    case True
    with Inr bn st show ?thesis by (auto simp: resolve_with_def)
  next
    case False
    then have slow: "(if name = PNone then vals st basenote else None) = None"
      by auto
    show ?thesis
    proof (cases "lookup (registry C) (mro C) basenote")
      case (Inl e)
      with Inr bn slow st show ?thesis by (simp add: resolve_with_def)
    next
      case d: (Inr d)
      have V: "\<And>s x. name = PNone \<Longrightarrow> keeps_cached C b v s \<Longrightarrow>
            keeps_cached C b v (s\<lparr>vals := (vals s)(basenote \<mapsto> x)\<rparr>)"
      proof -
        fix s x assume "name = PNone" and s: "keeps_cached C b v s"
        with False have "vals st basenote = None" by simp
        with st have "basenote \<noteq> b" by (auto simp: keeps_cached_def)
        with s show "keeps_cached C b v (s\<lparr>vals := (vals s)(basenote \<mapsto> x)\<rparr>)"
          by (simp add: keeps_cached_def)
      qed
      have I: "\<And>s p. keeps_cached C b v s \<Longrightarrow>
            keeps_cached C b v (s\<lparr>instances := AList.update basenote p (instances s)\<rparr>)"
        by (auto simp: keeps_cached_def update_conv')
      have G: "\<And>g s x. d = DGenFn g \<Longrightarrow> map_of (instances st) basenote = None \<Longrightarrow>
            keeps_cached C b v s \<Longrightarrow>
            keeps_cached C b v (s\<lparr>vals := (vals s)(basenote \<mapsto> x)\<rparr>)"
      proof -
        fix g s x assume g: "d = DGenFn g" and none: "map_of (instances st) basenote = None"
          and s: "keeps_cached C b v s"
        from st d g none have "basenote \<noteq> b" by (auto simp: keeps_cached_def)
        with s show "keeps_cached C b v (s\<lparr>vals := (vals s)(basenote \<mapsto> x)\<rparr>)"
          by (simp add: keeps_cached_def)
      qed
      from handle_provider_preserves [of "keeps_cached C b v" res st name basenote d k,
          OF res st V I G] Inr bn slow d
      show ?thesis by (simp add: resolve_with_def)
    qed
  qed
qed

lemma resolve_keeps_cached:
  "keeps_cached C b v st \<Longrightarrow> keeps_cached C b v (snd (resolve n C st k))"
proof (induction n arbitrary: st k)
  case 0
  then show ?case by simp
next
  case (Suc n)
  have res: "\<And>s k. keeps_cached C b v s \<Longrightarrow> keeps_cached C b v (snd (resolve n C s k))"
    by (rule Suc.IH)
  from resolve_with_keeps_cached [of C b v "resolve n C" st k, OF res Suc.prems]
  show ?case by simp
qed

text \<open>
  In an injector whose caches are consistent with the registry, so in every injector
  that has only been used with the registry as it is, no \<open>resolve\<close> changes a cached
  value.
\<close>

lemma cached_value_kept_under_one_registry:
  assumes "cache_consistent C st" and "vals st b = Some v"
  shows "vals (snd (resolve n C st k)) b = Some v"
proof -
  from assms have "keeps_cached C b v st"
    by (auto simp: keeps_cached_def cache_consistent_def)
  from resolve_keeps_cached [OF this, of n k] show ?thesis
    by (simp add: keeps_cached_def)
qed

text \<open>
  Claim C8, as amended. When a base key has a cached unnamed value and its provider
  is materialized, or the descriptor registered for it is not a generator function,
  a named \<open>resolve\<close> of the key, whatever it returns or raises and whatever it
  resolves on the way, leaves the cached value as it is, and an unnamed \<open>resolve\<close>
  after it returns that value.
\<close>

theorem named_resolve_keeps_cached_value:
  assumes "vals st basenote = Some v"
    and "map_of (instances st) basenote \<noteq> None
         \<or> (\<forall>g. lookup (registry C) (mro C) basenote \<noteq> Inr (DGenFn g))"
    and "parse_note named = Inr (basenote, name)"
    and "name \<noteq> PNone"
    and "parse_note unnamed = Inr (basenote, PNone)"
    and "resolve n C st named = (r, st')"
  shows "vals st' basenote = Some v
    \<and> (\<forall>m. resolve (Suc m) C st' unnamed = (Inr v, st'))"
proof -
  from assms(1,2) have "keeps_cached C basenote v st"
    by (simp add: keeps_cached_def)
  from resolve_keeps_cached [OF this, of n named] assms(6)
  have kept: "vals st' basenote = Some v"
    by (simp add: keeps_cached_def)
  with assms(5) have "\<forall>m. resolve (Suc m) C st' unnamed = (Inr v, st')"
    using resolve_cached by blast
  with kept show ?thesis by blast
qed

lemma ex_greeted_reached:
  "resolve (Suc 0) ex_class new_injector (PStr ''greeting'') = (Inr (PStr ''Hello, world!''), ex_greeted)"
  by (simp add: run_simps ex_class_def ex_providers_def ex_hello_def ex_greeted_def)

text \<open>
  The claim as stated fails when the class registers a generator function for a base
  key whose value came from a factory (which is never stored in \<open>instances\<close>): the
  named \<open>resolve\<close> runs \<open>init_generator\<close>, and \<open>handle_provider\<close> stores the initial
  value over the cached one before it looks at the name.
\<close>

theorem named_resolve_overwrites_after_reregistration:
  "resolve (Suc 0) ex_base_class new_injector (PStr ''answer'') = (Inr (PInt 42), ex_cached)
   \<and> register (registry ex_base_class) ''Injector'' (PStr ''answer'') (DGenFn ex_hello)
        = Inr (registry ex_reregistered)
   \<and> vals ex_cached (PStr ''answer'') = Some (PInt 42)
   \<and> fst (resolve (Suc 0) ex_reregistered ex_cached (PStr ''answer:there''))
        = Inr (PTuple [PStr ''Hello'', PStr ''there''])
   \<and> vals (snd (resolve (Suc 0) ex_reregistered ex_cached (PStr ''answer:there''))) (PStr ''answer'')
        = Some (PStr ''Hello, world!'')
   \<and> fst (resolve (Suc 0) ex_reregistered
              (snd (resolve (Suc 0) ex_reregistered ex_cached (PStr ''answer:there'')))
              (PStr ''answer''))
        = Inr (PStr ''Hello, world!'')"
  by (simp add: run_simps register_def ex_base_class_def ex_registry_def ex_function_def
        ex_cached_def ex_reregistered_def ex_hello_def)

theorem named_resolve_keeps_cached_value_witness:
  "vals ex_greeted (PStr ''greeting'') = Some (PStr ''Hello, world!'')
   \<and> map_of (instances ex_greeted) (PStr ''greeting'')
        = Some (GenInst ex_hello True (Suspended PNone) (PStr ''Hello, world!''))
   \<and> parse_note (PStr ''greeting:there'') = Inr (PStr ''greeting'', PStr ''there'')
   \<and> PStr ''there'' \<noteq> PNone
   \<and> parse_note (PStr ''greeting'') = Inr (PStr ''greeting'', PNone)
   \<and> resolve (Suc 0) ex_class ex_greeted (PStr ''greeting:there'')
        = (Inr (PTuple [PStr ''Hello'', PStr ''there'']), ex_greeted)
   \<and> resolve (Suc 0) ex_class ex_greeted (PStr ''greeting'')
        = (Inr (PStr ''Hello, world!''), ex_greeted)"
proof -
  have h1: "vals ex_greeted (PStr ''greeting'') = Some (PStr ''Hello, world!'')"
    by (simp add: ex_greeted_def)
  have m: "map_of (instances ex_greeted) (PStr ''greeting'')
        = Some (GenInst ex_hello True (Suspended PNone) (PStr ''Hello, world!''))"
    by (simp add: ex_greeted_def)
  then have h2: "map_of (instances ex_greeted) (PStr ''greeting'') \<noteq> None
        \<or> (\<forall>g. lookup (registry ex_class) (mro ex_class) (PStr ''greeting'') \<noteq> Inr (DGenFn g))"
    by simp
  have h3: "parse_note (PStr ''greeting:there'') = Inr (PStr ''greeting'', PStr ''there'')"
    by (simp add: at_end_def)
  have h4: "PStr ''there'' \<noteq> PNone"
    by simp
  have h5: "parse_note (PStr ''greeting'') = Inr (PStr ''greeting'', PNone)"
    by (simp add: at_end_def)
  have h6: "resolve (Suc 0) ex_class ex_greeted (PStr ''greeting:there'')
        = (Inr (PTuple [PStr ''Hello'', PStr ''there'']), ex_greeted)"
    by (simp add: run_simps ex_class_def ex_providers_def ex_hello_def ex_greeted_def)
  from named_resolve_keeps_cached_value [OF h1 h2 h3 h4 h5 h6]
  have c: "resolve (Suc 0) ex_class ex_greeted (PStr ''greeting'')
        = (Inr (PStr ''Hello, world!''), ex_greeted)"
    by blast
  show ?thesis
    by (intro conjI) (rule h1 m h3 h4 h5 h6 c)+
qed

end
